theory Spec2Isabelle
  imports Main "HOL-Library.Multiset"
begin

section \<open>Brand-context sentiment classification (sentiment-analyzer.js)\<close>

text \<open>
  A shallow embedding of \<^verbatim>\<open>analyzeBrandContext\<close> and
  \<^verbatim>\<open>generateDetailedInsights\<close> of \<^verbatim>\<open>src/sentiment-analyzer.js\<close>.

  A JavaScript string is modelled as a \<^typ>\<open>string\<close> whose characters are the
  code units \<open>0..255\<close> (the Latin-1 block of UTF-16); the case mappings below are the
  ones JavaScript applies to these code units.
\<close>

subsection \<open>Code units\<close>

definition code :: "char \<Rightarrow> nat" where
  "code c = of_char c"

text \<open>The class \<^verbatim>\<open>[A-Z]\<close> of a regular expression without the \<^verbatim>\<open>i\<close> flag.\<close>

definition isUpperAZ :: "char \<Rightarrow> bool" where
  "isUpperAZ c = (65 \<le> code c \<and> code c \<le> 90)"

text \<open>
  \<^verbatim>\<open>String.prototype.toLowerCase\<close> on one code unit: \<^verbatim>\<open>A-Z\<close> and the
  Latin-1 capitals \<open>0xC0..0xDE\<close> (but not the multiplication sign \<open>0xD7\<close>) move up by 32.
\<close>

definition toLowerChar :: "char \<Rightarrow> char" where
  "toLowerChar c =
     (if (65 \<le> code c \<and> code c \<le> 90) \<or> (192 \<le> code c \<and> code c \<le> 222 \<and> code c \<noteq> 215)
      then char_of (code c + 32) else c)"

definition toLowerCase :: "string \<Rightarrow> string" where
  "toLowerCase s = map toLowerChar s"

text \<open>
  \<^verbatim>\<open>Canonicalize\<close> of a regular expression with the \<^verbatim>\<open>i\<close> flag and without the
  \<^verbatim>\<open>u\<close> flag: the code unit of the upper-cased character when that is one code
  unit, and never a code unit below 128 for a character from 128 on. The result is a
  UTF-16 code unit, so it is a number: \<open>0xFF\<close> goes to \<open>0x178\<close> and the micro sign
  \<open>0xB5\<close> to \<open>0x39C\<close>; the sharp s \<open>0xDF\<close> upper-cases to two characters and stays.
\<close>

definition canonicalize :: "char \<Rightarrow> nat" where
  "canonicalize c =
     (if (97 \<le> code c \<and> code c \<le> 122) \<or> (224 \<le> code c \<and> code c \<le> 254 \<and> code c \<noteq> 247)
      then code c - 32
      else if code c = 255 then 376
      else if code c = 181 then 924
      else code c)"

text \<open>The word characters of \<^verbatim>\<open>\b\<close>: \<^verbatim>\<open>[A-Za-z0-9_]\<close>.\<close>

definition isWordChar :: "char \<Rightarrow> bool" where
  "isWordChar c =
     ((65 \<le> code c \<and> code c \<le> 90) \<or> (97 \<le> code c \<and> code c \<le> 122) \<or>
      (48 \<le> code c \<and> code c \<le> 57) \<or> code c = 95)"

text \<open>
  The white space and line terminators that \<^verbatim>\<open>String.prototype.trim\<close> removes,
  among the code units below 256: TAB, LF, VT, FF, CR, space and the no-break space.
\<close>

definition isTrimSpace :: "char \<Rightarrow> bool" where
  "isTrimSpace c = ((9 \<le> code c \<and> code c \<le> 13) \<or> code c = 32 \<or> code c = 160)"

definition trim :: "string \<Rightarrow> string" where
  "trim s = rev (dropWhile isTrimSpace (rev (dropWhile isTrimSpace s)))"

subsection \<open>Literal patterns\<close>

text \<open>
  A pattern made of literal characters only, tried at the front of \<open>s\<close>: with the
  \<^verbatim>\<open>i\<close> flag two characters match when they canonicalize alike.
\<close>

fun prefixCI :: "string \<Rightarrow> string \<Rightarrow> bool" where
  "prefixCI [] s = True"
| "prefixCI (p # ps) [] = False"
| "prefixCI (p # ps) (c # cs) = (canonicalize p = canonicalize c \<and> prefixCI ps cs)"

text \<open>The same without the \<^verbatim>\<open>i\<close> flag.\<close>

fun prefixCS :: "string \<Rightarrow> string \<Rightarrow> bool" where
  "prefixCS [] s = True"
| "prefixCS (p # ps) [] = False"
| "prefixCS (p # ps) (c # cs) = (p = c \<and> prefixCS ps cs)"

subsection \<open>Brand variations\<close>

text \<open>\<^verbatim>\<open>brandName.replace(/([A-Z])/g, ' $1')\<close>: a space before every \<^verbatim>\<open>A-Z\<close>.\<close>

fun spaceBeforeUpper :: "string \<Rightarrow> string" where
  "spaceBeforeUpper [] = []"
| "spaceBeforeUpper (c # cs) =
     (if isUpperAZ c then CHR '' '' # c # spaceBeforeUpper cs else c # spaceBeforeUpper cs)"

text \<open>\<^verbatim>\<open>brandName.replace(/^WK/, 'WK ')\<close>.\<close>

definition wkPrefixSpaced :: "string \<Rightarrow> string" where
  "wkPrefixSpaced b = (if prefixCS ''WK'' b then ''WK '' @ drop 2 b else b)"

text \<open>
  \<^verbatim>\<open>brandName.replace(/USA?$/i, '')\<close>: the pattern is anchored at the end of the
  input, so it matches a final \<^verbatim>\<open>USA\<close> or, failing that, a final \<^verbatim>\<open>US\<close>,
  in any letter case.
\<close>

definition stripUSA :: "string \<Rightarrow> string" where
  "stripUSA b =
     (if 3 \<le> length b \<and> prefixCI ''USA'' (drop (length b - 3) b) then take (length b - 3) b
      else if 2 \<le> length b \<and> prefixCI ''US'' (drop (length b - 2) b) then take (length b - 2) b
      else b)"

text \<open>\<^verbatim>\<open>brandName.replace(/^WK/i, '').trim()\<close>.\<close>

definition stripWK :: "string \<Rightarrow> string" where
  "stripWK b = trim (if prefixCI ''WK'' b then drop 2 b else b)"

definition brandVariations :: "string \<Rightarrow> string list" where
  "brandVariations brandName =
     [ brandName,
       trim (spaceBeforeUpper brandName),
       wkPrefixSpaced brandName,
       stripUSA brandName,
       brandName @ [CHR 0x27, CHR ''s''],
       stripWK brandName,
       stripWK brandName @ [CHR 0x27, CHR ''s''] ]"

subsection \<open>Sentences\<close>

definition isTerminator :: "char \<Rightarrow> bool" where
  "isTerminator c = (c = CHR ''.'' \<or> c = CHR ''!'' \<or> c = CHR ''?'')"

definition notTerminator :: "char \<Rightarrow> bool" where
  "notTerminator c = (\<not> isTerminator c)"

text \<open>
  \<^verbatim>\<open>text.match(/[^.!?]+[.!?]+/g) || []\<close>: the matches from left to right. A match
  cannot start at a terminator, so terminators in front are passed over; then the longest
  run of other characters must be followed by a terminator, and the match takes the whole
  run of terminators. A last run with no terminator after it gives no match at any of its
  positions.
\<close>

function splitSentences :: "string \<Rightarrow> string list" where
  "splitSentences s =
     (if dropWhile notTerminator (dropWhile isTerminator s) = [] then []
      else (takeWhile notTerminator (dropWhile isTerminator s) @
            takeWhile isTerminator (dropWhile notTerminator (dropWhile isTerminator s)))
           # splitSentences
               (dropWhile isTerminator (dropWhile notTerminator (dropWhile isTerminator s))))"
  by pat_completeness auto
termination
proof (relation "measure length", simp)
  fix s :: string
  let ?r = "dropWhile notTerminator (dropWhile isTerminator s)"
  assume ne: "?r \<noteq> []"
  then obtain c cs where r: "?r = c # cs" by (cases ?r) auto
  have "\<not> notTerminator (hd ?r)" using ne by (rule hd_dropWhile)
  then have "isTerminator c" by (simp add: r notTerminator_def)
  then have "length (dropWhile isTerminator ?r) \<le> length cs"
    by (simp add: r length_dropWhile_le)
  also have "\<dots> < length ?r" by (simp add: r)
  also have "\<dots> \<le> length (dropWhile isTerminator s)" by (rule length_dropWhile_le)
  also have "\<dots> \<le> length s" by (rule length_dropWhile_le)
  finally show "(dropWhile isTerminator ?r, s) \<in> measure length" by simp
qed

declare splitSentences.simps [simp del]

subsection \<open>The brand matcher and its \<^verbatim>\<open>lastIndex\<close>\<close>

text \<open>
  Every variation is escaped (\<^verbatim>\<open>v.replace(/[.*+?^${}()|[\]\\]/g, '\\$&')\<close>), so it
  is a pattern of literal characters, and the variations are joined with \<^verbatim>\<open>|\<close>:
  at one position the alternatives are tried in order and the first that matches is
  taken. \<open>firstAlt\<close> gives the length of that match.
\<close>

fun firstAlt :: "string list \<Rightarrow> string \<Rightarrow> nat option" where
  "firstAlt [] s = None"
| "firstAlt (v # vs) s = (if prefixCI v s then Some (length v) else firstAlt vs s)"

text \<open>
  The search of \<^verbatim>\<open>RegExpBuiltinExec\<close> from the front of \<open>s\<close>: every position up to
  and including the end of the string is tried. The result is the end of the first match,
  counted from the front of \<open>s\<close>.
\<close>

fun execSuffix :: "string list \<Rightarrow> string \<Rightarrow> nat option" where
  "execSuffix vs [] = firstAlt vs []"
| "execSuffix vs (c # cs) =
     (case firstAlt vs (c # cs) of
        Some n \<Rightarrow> Some n
      | None \<Rightarrow> map_option Suc (execSuffix vs cs))"

text \<open>
  \<^verbatim>\<open>brandRegex.test(s)\<close> for a regular expression with the \<^verbatim>\<open>g\<close> flag: the
  search starts at \<^verbatim>\<open>lastIndex\<close>; a match leaves \<^verbatim>\<open>lastIndex\<close> at its end,
  a failure (also \<^verbatim>\<open>lastIndex\<close> beyond the string) resets it to 0. The value is
  the answer and the new \<^verbatim>\<open>lastIndex\<close>.
\<close>

definition regexTest :: "string list \<Rightarrow> nat \<Rightarrow> string \<Rightarrow> bool \<times> nat" where
  "regexTest vs lastIndex s =
     (if lastIndex > length s then (False, 0)
      else case execSuffix vs (drop lastIndex s) of
             None \<Rightarrow> (False, 0)
           | Some e \<Rightarrow> (True, lastIndex + e))"

text \<open>
  \<^verbatim>\<open>sentences.filter(s => brandRegex.test(s))\<close>: one regular expression object
  serves every sentence, so its \<^verbatim>\<open>lastIndex\<close> is threaded through the filter.
\<close>

fun filterBrand :: "string list \<Rightarrow> nat \<Rightarrow> string list \<Rightarrow> string list" where
  "filterBrand vs lastIndex [] = []"
| "filterBrand vs lastIndex (s # ss) =
     (case regexTest vs lastIndex s of
        (True, li) \<Rightarrow> s # filterBrand vs li ss
      | (False, li) \<Rightarrow> filterBrand vs li ss)"

text \<open>\<^verbatim>\<open>brandSentences.join(' ')\<close>.\<close>

fun joinSpace :: "string list \<Rightarrow> string" where
  "joinSpace [] = []"
| "joinSpace [s] = s"
| "joinSpace (s # t # ss) = s @ CHR '' '' # joinSpace (t # ss)"

subsection \<open>Indicator words\<close>

definition positiveIndicators :: "string list" where
  "positiveIndicators =
     [''approved'', ''breakthrough'', ''effective'', ''innovative'', ''leading'', ''first'',
      ''superior'', ''successful'', ''advance'', ''pioneer'', ''develop'', ''announce'',
      ''achieve'', ''demonstrate'', ''show'', ''proven'', ''award'', ''excellence'',
      ''partner'', ''collaboration'', ''invest'', ''expand'', ''growth'', ''milestone'',
      ''benefit'', ''improve'', ''help'', ''treat'', ''cure'', ''relief'', ''solution'']"

definition negativeIndicators :: "string list" where
  "negativeIndicators =
     [''recall'', ''lawsuit'', ''sued'', ''litigation'', ''penalty'', ''fine'', ''violation'',
      ''danger'', ''dangerous'', ''fatal'', ''death'', ''harm'', ''injury'', ''adverse'',
      ''fail'', ''failed'', ''reject'', ''denied'', ''controversy'', ''scandal'',
      ''mislead'', ''fraud'', ''illegal'', ''banned'', ''prohibit'', ''restrict'',
      ''shortage'', ''unavailable'', ''limited'', ''concern'', ''worried'', ''afraid'',
      ''expensive'', ''costly'', ''unaffordable'', ''price'', ''complaint'', ''criticism'']"

definition neutralMedical :: "string list" where
  "neutralMedical =
     [''weight loss'', ''lose weight'', ''obesity'', ''overweight'', ''diabetes'',
      ''side effect'', ''adverse'', ''patient'', ''treatment'', ''therapy'',
      ''disease'', ''condition'', ''symptom'', ''dose'', ''dosage'', ''injection'']"

text \<open>
  The assertion \<^verbatim>\<open>\b\<close> between the character before the position (if any) and the
  character at it (if any): exactly one of the two is a word character.
\<close>

definition wordBoundary :: "char option \<Rightarrow> string \<Rightarrow> bool" where
  "wordBoundary prev s =
     ((case prev of None \<Rightarrow> False | Some c \<Rightarrow> isWordChar c) \<noteq>
      (case s of [] \<Rightarrow> False | c # _ \<Rightarrow> isWordChar c))"

text \<open>
  \<^verbatim>\<open>brandContext.match(new RegExp(`\\b${word}`, 'gi'))\<close> for a word of literal
  characters: the matched pieces from left to right. \<open>prev\<close> is the character before
  the position, \<open>skip\<close> the number of positions still covered by the last match; after
  a match the search goes on behind it (one position on for an empty match).
\<close>

fun matchAllWord :: "string \<Rightarrow> char option \<Rightarrow> nat \<Rightarrow> string \<Rightarrow> string list" where
  "matchAllWord w prev skip [] =
     (if skip = 0 \<and> wordBoundary prev [] \<and> prefixCI w [] then [[]] else [])"
| "matchAllWord w prev skip (c # cs) =
     (if skip = 0 \<and> wordBoundary prev (c # cs) \<and> prefixCI w (c # cs)
      then take (length w) (c # cs) # matchAllWord w (Some c) (length w - 1) cs
      else matchAllWord w (Some c) (skip - 1) cs)"

text \<open>
  One round of \<^verbatim>\<open>indicators.forEach(word => ...)\<close>: \<^verbatim>\<open>match\<close> gives
  \<^verbatim>\<open>null\<close> when nothing matches, and then nothing changes.
\<close>

definition countStep :: "string \<Rightarrow> int \<times> string list \<Rightarrow> string \<Rightarrow> int \<times> string list" where
  "countStep brandContext acc word =
     (let matches = matchAllWord word None 0 brandContext in
      if matches \<noteq> []
      then (fst acc + int (length matches),
            if word \<in> set (snd acc) then snd acc else snd acc @ [word])
      else acc)"

definition countIndicators :: "string list \<Rightarrow> string \<Rightarrow> int \<times> string list" where
  "countIndicators ws brandContext = foldl (countStep brandContext) (0, []) ws"

subsection \<open>Classification\<close>

datatype classification = Positive | Neutral | Negative | Unknown

text \<open>
  The object \<^verbatim>\<open>analyzeBrandContext\<close> returns. Its two \<^verbatim>\<open>return\<close> statements
  build objects with different properties; a property an object does not have is
  \<open>None\<close>.
\<close>

record analysis =
  score :: int
  classification :: classification
  indicators :: "string list option"
  positiveCount :: "int option"
  negativeCount :: "int option"
  positive :: "string list option"
  negative :: "string list option"
  brandSentences :: "nat option"

definition classify :: "int \<Rightarrow> int \<Rightarrow> int \<Rightarrow> classification" where
  "classify sc p n =
     (if sc \<ge> 3 \<or> (p \<ge> 3 \<and> n = 0) then Positive
      else if sc < 0 \<or> n \<ge> 1 then Negative
      else Neutral)"

text \<open>
  The body of \<^verbatim>\<open>analyzeBrandContext\<close> with its three constant word lists as
  arguments. The third list, \<^verbatim>\<open>neutralMedical\<close>, is declared in the body and not
  read by it.
\<close>

definition analyzeWith ::
  "string list \<Rightarrow> string list \<Rightarrow> string list \<Rightarrow> string \<Rightarrow> string \<Rightarrow> analysis" where
  "analyzeWith positiveWords negativeWords neutralWords text brandName =
     (let sentences = splitSentences text;
          brandSents = filterBrand (brandVariations brandName) 0 sentences
      in if length brandSents = 0
         then \<lparr> score = 0, classification = Neutral, indicators = Some [],
                positiveCount = None, negativeCount = None,
                positive = None, negative = None, brandSentences = None \<rparr>
         else
           let brandContext = toLowerCase (joinSpace brandSents);
               pos = countIndicators positiveWords brandContext;
               neg = countIndicators negativeWords brandContext;
               sc = fst pos - fst neg * 2
           in \<lparr> score = sc, classification = classify sc (fst pos) (fst neg),
                 indicators = None,
                 positiveCount = Some (fst pos), negativeCount = Some (fst neg),
                 positive = Some (snd pos), negative = Some (snd neg),
                 brandSentences = Some (length brandSents) \<rparr>)"

definition analyzeBrandContext :: "string \<Rightarrow> string \<Rightarrow> analysis" where
  "analyzeBrandContext text brandName =
     analyzeWith positiveIndicators negativeIndicators neutralMedical text brandName"

text \<open>
  The two intermediate values of the body, named for the statements below: the kept
  sentences (\<^verbatim>\<open>brandSentences\<close>) and the lower-cased context
  (\<^verbatim>\<open>brandContext\<close>).
\<close>

definition brandSentencesOf :: "string \<Rightarrow> string \<Rightarrow> string list" where
  "brandSentencesOf text brandName =
     filterBrand (brandVariations brandName) 0 (splitSentences text)"

definition brandContextOf :: "string \<Rightarrow> string \<Rightarrow> string" where
  "brandContextOf text brandName = toLowerCase (joinSpace (brandSentencesOf text brandName))"

text \<open>The number of matches of \<^verbatim>\<open>\b<word>\<close> in a context: \<^verbatim>\<open>matches.length\<close>.\<close>

definition occurrences :: "string \<Rightarrow> string \<Rightarrow> nat" where
  "occurrences brandContext w = length (matchAllWord w None 0 brandContext)"

text \<open>
  What the sentence filter would keep if every sentence were tested on its own, from
  position 0: the sentences in which the alternation matches somewhere. This is the
  filter as the documentation words it (``sentences containing any brand variation'').
\<close>

definition containsBrand :: "string list \<Rightarrow> string \<Rightarrow> bool" where
  "containsBrand vs s = (execSuffix vs s \<noteq> None)"

definition sentencesContainingBrand :: "string \<Rightarrow> string \<Rightarrow> string list" where
  "sentencesContainingBrand text brandName =
     filter (containsBrand (brandVariations brandName)) (splitSentences text)"

section \<open>Aggregation over pages (\<^verbatim>\<open>generateDetailedInsights\<close>)\<close>

subsection \<open>Page records\<close>

datatype status = Success | Error | Skipped

text \<open>
  The record \<^verbatim>\<open>processURL\<close> builds for a page, with the properties aggregation
  reads. \<^verbatim>\<open>sentiment\<close> is only tested for presence, so its type is left open;
  \<^verbatim>\<open>classification\<close> is \<^verbatim>\<open>null\<close> or one of the four strings
  \<^verbatim>\<open>classifySentiment\<close> returns, and is called \<open>pageClassification\<close> here because
  the analysis record above has a field of the same name.
\<close>

record 's page =
  url :: string
  status :: status
  mentionsBrand :: bool
  mentionCount :: nat
  sentiment :: "'s option"
  pageClassification :: "classification option"

subsection \<open>Objects used as dictionaries\<close>

text \<open>
  \<^verbatim>\<open>domainMentions\<close> and \<^verbatim>\<open>domainSentiments\<close> are plain objects with
  string keys. An object is modelled by its own properties in the order of their
  creation. Reading a key that names a member inherited from \<^verbatim>\<open>Object.prototype\<close>
  would find that member instead of \<^verbatim>\<open>undefined\<close>; the model covers the keys
  that are not such names (\<open>ownKeysOnly\<close> below).
\<close>

type_synonym 'v jsobject = "(string \<times> 'v) list"

definition getProp :: "'v jsobject \<Rightarrow> string \<Rightarrow> 'v option" where
  "getProp obj k = map_of obj k"

text \<open>\<^verbatim>\<open>obj[k] = v\<close>: an existing property keeps its place, a new one goes last.\<close>

fun setProp :: "string \<Rightarrow> 'v \<Rightarrow> 'v jsobject \<Rightarrow> 'v jsobject" where
  "setProp k v [] = [(k, v)]"
| "setProp k v (p # ps) = (if fst p = k then (k, v) # ps else p # setProp k v ps)"

definition isDigit :: "char \<Rightarrow> bool" where
  "isDigit c = (48 \<le> code c \<and> code c \<le> 57)"

definition decimalValue :: "string \<Rightarrow> nat" where
  "decimalValue s = foldl (\<lambda>n c. 10 * n + (code c - 48)) 0 s"

text \<open>
  An array index: the canonical decimal form of an integer from 0 to \<open>2\<^sup>3\<^sup>2 - 2\<close>.
\<close>

definition isArrayIndex :: "string \<Rightarrow> bool" where
  "isArrayIndex s =
     (s \<noteq> [] \<and> list_all isDigit s \<and> (s = ''0'' \<or> hd s \<noteq> CHR ''0'')
      \<and> decimalValue s \<le> 4294967294)"

text \<open>
  \<^verbatim>\<open>Object.entries(obj)\<close>: the properties whose keys are array indices come
  first, in ascending numeric order, then the other properties in the order of their
  creation.
\<close>

definition objectEntries :: "'v jsobject \<Rightarrow> (string \<times> 'v) list" where
  "objectEntries obj =
     sort_key (\<lambda>e. decimalValue (fst e)) (filter (\<lambda>e. isArrayIndex (fst e)) obj)
     @ filter (\<lambda>e. \<not> isArrayIndex (fst e)) obj"

definition inheritedPropertyNames :: "string list" where
  "inheritedPropertyNames =
     [''constructor'', ''__defineGetter__'', ''__defineSetter__'', ''hasOwnProperty'',
      ''__lookupGetter__'', ''__lookupSetter__'', ''isPrototypeOf'',
      ''propertyIsEnumerable'', ''toString'', ''valueOf'', ''__proto__'',
      ''toLocaleString'']"

subsection \<open>Domains\<close>

text \<open>\<^verbatim>\<open>s.replace(pat, rep)\<close> with a string pattern: the first occurrence only.\<close>

fun replaceFirst :: "string \<Rightarrow> string \<Rightarrow> string \<Rightarrow> string" where
  "replaceFirst pat rep [] = (if pat = [] then rep else [])"
| "replaceFirst pat rep (c # cs) =
     (if prefixCS pat (c # cs) then rep @ drop (length pat) (c # cs)
      else c # replaceFirst pat rep cs)"

text \<open>
  \<^verbatim>\<open>getDomain\<close>. The URL parser of the platform is an argument: \<open>hostnameOf url\<close> is
  \<^verbatim>\<open>new URL(url).hostname\<close>, and \<open>None\<close> when the constructor throws.
\<close>

definition getDomain :: "(string \<Rightarrow> string option) \<Rightarrow> string \<Rightarrow> string" where
  "getDomain hostnameOf u =
     (case hostnameOf u of
        Some hostname \<Rightarrow> replaceFirst ''www.'' [] hostname
      | None \<Rightarrow> u)"

subsection \<open>The loop over the pages\<close>

text \<open>
  A value of \<^verbatim>\<open>domainSentiments\<close>. The property \<^verbatim>\<open>unknown\<close> comes into being
  when a page classified \<^verbatim>\<open>'unknown'\<close> is counted: \<^verbatim>\<open>undefined++\<close> stores
  \<^verbatim>\<open>NaN\<close>, and \<open>tUnknown\<close> says that it is there.
\<close>

record tally =
  tPositive :: nat
  tNeutral :: nat
  tNegative :: nat
  tUnknown :: bool

definition emptyTally :: tally where
  "emptyTally = \<lparr> tPositive = 0, tNeutral = 0, tNegative = 0, tUnknown = False \<rparr>"

text \<open>\<^verbatim>\<open>t[classification]++\<close>.\<close>

fun increment :: "classification \<Rightarrow> tally \<Rightarrow> tally" where
  "increment Positive t = t\<lparr> tPositive := tPositive t + 1 \<rparr>"
| "increment Neutral t = t\<lparr> tNeutral := tNeutral t + 1 \<rparr>"
| "increment Negative t = t\<lparr> tNegative := tNegative t + 1 \<rparr>"
| "increment Unknown t = t\<lparr> tUnknown := True \<rparr>"

text \<open>
  One round of \<^verbatim>\<open>results.forEach(result => ...)\<close> on the pair
  (\<^verbatim>\<open>domainMentions\<close>, \<^verbatim>\<open>domainSentiments\<close>).
\<close>

definition tallyPage ::
  "(string \<Rightarrow> string option) \<Rightarrow> nat jsobject \<times> tally jsobject \<Rightarrow> 's page
   \<Rightarrow> nat jsobject \<times> tally jsobject" where
  "tallyPage hostnameOf acc result =
     (let domain = getDomain hostnameOf (url result) in
      if mentionsBrand result then
        let mentions =
              setProp domain
                ((case getProp (fst acc) domain of None \<Rightarrow> 0 | Some c \<Rightarrow> c)
                 + mentionCount result)
                (fst acc)
        in (case pageClassification result of
              None \<Rightarrow> (mentions, snd acc)
            | Some cl \<Rightarrow>
                let sentiments =
                      (case getProp (snd acc) domain of
                         None \<Rightarrow> setProp domain emptyTally (snd acc)
                       | Some t \<Rightarrow> snd acc)
                in (mentions,
                    setProp domain
                      (increment cl (case getProp sentiments domain of
                                       None \<Rightarrow> emptyTally | Some t \<Rightarrow> t))
                      sentiments))
      else acc)"

definition domainMentionsOf ::
  "(string \<Rightarrow> string option) \<Rightarrow> 's page list \<Rightarrow> nat jsobject" where
  "domainMentionsOf hostnameOf results = fst (foldl (tallyPage hostnameOf) ([], []) results)"

definition domainSentimentsOf ::
  "(string \<Rightarrow> string option) \<Rightarrow> 's page list \<Rightarrow> tally jsobject" where
  "domainSentimentsOf hostnameOf results = snd (foldl (tallyPage hostnameOf) ([], []) results)"

subsection \<open>The insights\<close>

record topDomain =
  tdDomain :: string
  tdCount :: nat
  tdSentiment :: "tally option"

text \<open>
  \<^verbatim>\<open>.sort((a, b) => b[1] - a[1])\<close>: descending by count. The sort of the
  platform is stable, as is \<open>sort_key\<close>.
\<close>

definition sortByCountDesc :: "(string \<times> nat) list \<Rightarrow> (string \<times> nat) list" where
  "sortByCountDesc entries = sort_key (\<lambda>e. - int (snd e)) entries"

record insights =
  topDomains :: "topDomain list"
  totalPages :: nat
  successfulPages :: nat
  pagesWithMentions :: nat
  highMentionPages :: nat
  lowMentionPages :: nat
  positivePages :: nat
  neutralPages :: nat
  negativePages :: nat
  highMentionSentiment :: tally

definition hasClass :: "classification \<Rightarrow> 's page \<Rightarrow> bool" where
  "hasClass cl r = (pageClassification r = Some cl)"

text \<open>
  \<^verbatim>\<open>generateDetailedInsights(results, searchTerm)\<close>; the second parameter is not
  read by the body and is left out. The fields \<^verbatim>\<open>positive\<close>, \<^verbatim>\<open>neutral\<close> and
  \<^verbatim>\<open>negative\<close> of the result are \<open>positivePages\<close>, \<open>neutralPages\<close> and
  \<open>negativePages\<close>.
\<close>

definition generateDetailedInsights ::
  "(string \<Rightarrow> string option) \<Rightarrow> 's page list \<Rightarrow> insights" where
  "generateDetailedInsights hostnameOf results =
     (let successful = filter (\<lambda>r. status r = Success \<and> sentiment r \<noteq> None) results;
          withMentions = filter mentionsBrand results;
          domainMentions = domainMentionsOf hostnameOf results;
          domainSentiments = domainSentimentsOf hostnameOf results;
          top = map (\<lambda>e. \<lparr> tdDomain = fst e, tdCount = snd e,
                           tdSentiment = getProp domainSentiments (fst e) \<rparr>)
                  (take 5 (sortByCountDesc (objectEntries domainMentions)));
          highMention = filter (\<lambda>r. mentionCount r \<ge> 3) withMentions;
          lowMention = filter (\<lambda>r. mentionCount r < 3 \<and> mentionCount r > 0) withMentions
      in \<lparr> topDomains = top,
           totalPages = length results,
           successfulPages = length successful,
           pagesWithMentions = length withMentions,
           highMentionPages = length highMention,
           lowMentionPages = length lowMention,
           positivePages = length (filter (hasClass Positive) successful),
           neutralPages = length (filter (hasClass Neutral) successful),
           negativePages = length (filter (hasClass Negative) successful),
           highMentionSentiment =
             \<lparr> tPositive = length (filter (hasClass Positive) highMention),
               tNeutral = length (filter (hasClass Neutral) highMention),
               tNegative = length (filter (hasClass Negative) highMention),
               tUnknown = False \<rparr> \<rparr>)"

text \<open>
  The pages for which the dictionaries are modelled as the code has them: no page
  that mentions the brand has a domain that names an inherited member.
\<close>

definition ownKeysOnly :: "(string \<Rightarrow> string option) \<Rightarrow> 's page list \<Rightarrow> bool" where
  "ownKeysOnly hostnameOf results =
     list_all (\<lambda>r. getDomain hostnameOf (url r) \<notin> set inheritedPropertyNames)
       (filter mentionsBrand results)"

section \<open>Properties of the classifier\<close>

subsection \<open>The two results of \<^verbatim>\<open>analyzeBrandContext\<close>\<close>

lemma analyzeWith_none:
  "brandSentencesOf text b = [] \<Longrightarrow>
   analyzeWith P N M text b =
     \<lparr> score = 0, classification = Neutral, indicators = Some [],
       positiveCount = None, negativeCount = None,
       positive = None, negative = None, brandSentences = None \<rparr>"
  by (simp add: analyzeWith_def brandSentencesOf_def)

lemma analyzeWith_some:
  "brandSentencesOf text b \<noteq> [] \<Longrightarrow>
   analyzeWith P N M text b =
     \<lparr> score = fst (countIndicators P (brandContextOf text b))
                - fst (countIndicators N (brandContextOf text b)) * 2,
       classification =
         classify (fst (countIndicators P (brandContextOf text b))
                    - fst (countIndicators N (brandContextOf text b)) * 2)
           (fst (countIndicators P (brandContextOf text b)))
           (fst (countIndicators N (brandContextOf text b))),
       indicators = None,
       positiveCount = Some (fst (countIndicators P (brandContextOf text b))),
       negativeCount = Some (fst (countIndicators N (brandContextOf text b))),
       positive = Some (snd (countIndicators P (brandContextOf text b))),
       negative = Some (snd (countIndicators N (brandContextOf text b))),
       brandSentences = Some (length (brandSentencesOf text b)) \<rparr>"
  by (simp add: analyzeWith_def brandSentencesOf_def brandContextOf_def Let_def)

subsection \<open>The counting loop\<close>

lemma countStep_fst:
  "fst (countStep ctx acc w) = fst acc + int (occurrences ctx w)"
  by (simp add: countStep_def occurrences_def Let_def)

lemma countStep_snd_set:
  "set (snd (countStep ctx acc w)) =
     set (snd acc) \<union> (if occurrences ctx w = 0 then {} else {w})"
  by (auto simp: countStep_def occurrences_def Let_def)

lemma countStep_snd_distinct:
  "distinct (snd acc) \<Longrightarrow> distinct (snd (countStep ctx acc w))"
  by (simp add: countStep_def Let_def)

lemma countStep_snd_fresh:
  "w \<notin> set (snd acc) \<Longrightarrow>
   snd (countStep ctx acc w) = snd acc @ (if occurrences ctx w = 0 then [] else [w])"
  by (simp add: countStep_def occurrences_def Let_def)

lemma countStep_noop: "occurrences ctx w = 0 \<Longrightarrow> countStep ctx acc w = acc"
  by (simp add: countStep_def occurrences_def)

lemma foldl_countStep_fst:
  "fst (foldl (countStep ctx) acc ws) = fst acc + (\<Sum>w\<leftarrow>ws. int (occurrences ctx w))"
  by (induction ws arbitrary: acc) (simp_all add: countStep_fst)

lemma foldl_countStep_distinct:
  "distinct (snd acc) \<Longrightarrow> distinct (snd (foldl (countStep ctx) acc ws))"
  by (induction ws arbitrary: acc) (simp_all add: countStep_snd_distinct)

lemma foldl_countStep_snd:
  "distinct ws \<Longrightarrow> set (snd acc) \<inter> set ws = {} \<Longrightarrow>
   snd (foldl (countStep ctx) acc ws) = snd acc @ filter (\<lambda>w. occurrences ctx w \<noteq> 0) ws"
proof (induction ws arbitrary: acc)
  case Nil
  then show ?case by simp
next
  case (Cons w ws)
  have fresh: "w \<notin> set (snd acc)" using Cons.prems by auto
  have "set (snd (countStep ctx acc w)) \<inter> set ws = {}"
    using Cons.prems by (auto simp: countStep_snd_set split: if_splits)
  with Cons have "snd (foldl (countStep ctx) (countStep ctx acc w) ws) =
      snd (countStep ctx acc w) @ filter (\<lambda>w. occurrences ctx w \<noteq> 0) ws"
    by simp
  then show ?case using fresh by (simp add: countStep_snd_fresh)
qed

lemma foldl_countStep_length:
  "int (length (snd acc)) \<le> fst acc \<Longrightarrow>
   int (length (snd (foldl (countStep ctx) acc ws))) \<le> fst (foldl (countStep ctx) acc ws)"
proof (induction ws arbitrary: acc)
  case Nil
  then show ?case by simp
next
  case (Cons w ws)
  have "int (length (snd (countStep ctx acc w))) \<le> fst (countStep ctx acc w)"
    using Cons.prems
    by (auto simp: countStep_def Let_def) (cases "matchAllWord w None 0 ctx", auto)
  then show ?case using Cons.IH by simp
qed

lemma countIndicators_fst:
  "fst (countIndicators ws ctx) = (\<Sum>w\<leftarrow>ws. int (occurrences ctx w))"
  by (simp add: countIndicators_def foldl_countStep_fst)

lemma countIndicators_nonneg: "0 \<le> fst (countIndicators ws ctx)"
  unfolding countIndicators_fst by (induction ws) simp_all

lemma countIndicators_snd:
  "distinct ws \<Longrightarrow>
   snd (countIndicators ws ctx) = filter (\<lambda>w. occurrences ctx w \<noteq> 0) ws"
  by (simp add: countIndicators_def foldl_countStep_snd)

lemma countIndicators_distinct: "distinct (snd (countIndicators ws ctx))"
  by (simp add: countIndicators_def foldl_countStep_distinct)

lemma countIndicators_length:
  "int (length (snd (countIndicators ws ctx))) \<le> fst (countIndicators ws ctx)"
  by (simp add: countIndicators_def foldl_countStep_length)

lemma distinct_positiveIndicators: "distinct positiveIndicators"
  by (simp add: positiveIndicators_def)

lemma distinct_negativeIndicators: "distinct negativeIndicators"
  by (simp add: negativeIndicators_def)

subsection \<open>Words that cannot match\<close>

text \<open>
  A word can only match where \<^verbatim>\<open>\b\<close> holds and the character there is its first
  character up to case. \<open>boundaryInitials\<close> lists the characters at the boundaries of a
  context; a word whose first character is not among them has no match, so the loop may
  leave it out. This keeps the evaluation of the examples below short.
\<close>

fun boundaryInitials :: "char option \<Rightarrow> string \<Rightarrow> nat list" where
  "boundaryInitials prev [] = []"
| "boundaryInitials prev (c # cs) =
     (if wordBoundary prev (c # cs) then canonicalize c # boundaryInitials (Some c) cs
      else boundaryInitials (Some c) cs)"

definition mayMatch :: "nat list \<Rightarrow> string \<Rightarrow> bool" where
  "mayMatch inits w = (case w of [] \<Rightarrow> True | p # _ \<Rightarrow> canonicalize p \<in> set inits)"

lemma matchAllWord_no_initial:
  "canonicalize p \<notin> set (boundaryInitials prev s) \<Longrightarrow>
   matchAllWord (p # ps) prev skip s = []"
  by (induction s arbitrary: prev skip) (auto split: if_splits)

lemma occurrences_mayMatch:
  "\<not> mayMatch (boundaryInitials None ctx) w \<Longrightarrow> occurrences ctx w = 0"
  by (cases w) (simp_all add: mayMatch_def occurrences_def matchAllWord_no_initial)

lemma foldl_countStep_filter:
  "(\<And>w. \<not> Q w \<Longrightarrow> occurrences ctx w = 0) \<Longrightarrow>
   foldl (countStep ctx) acc ws = foldl (countStep ctx) acc (filter Q ws)"
  by (induction ws arbitrary: acc) (simp_all add: countStep_noop)

lemma countIndicators_candidates:
  "boundaryInitials None ctx = inits \<Longrightarrow>
   countIndicators ws ctx = countIndicators (filter (mayMatch inits) ws) ctx"
  unfolding countIndicators_def
  by (rule foldl_countStep_filter) (auto dest: occurrences_mayMatch)

subsection \<open>Two worked inputs\<close>

text \<open>
  A page on which the brand is praised five times and criticised once, with a tail that
  has no terminal punctuation.
\<close>

definition praisePage :: string where
  "praisePage = ''Ozempic treats, treats, treats, treats, treats worried. The END''"

definition praiseContext :: string where
  "praiseContext = ''ozempic treats, treats, treats, treats, treats worried.''"

text \<open>A page whose second sentence names the brand beside one unfavourable word.\<close>

definition adversePage :: string where
  "adversePage = ''Is it safe? Ozempic: adverse!''"

definition adverseContext :: string where
  "adverseContext = '' ozempic: adverse!''"

lemma praise_sentences:
  "brandSentencesOf praisePage ''Ozempic'' =
     [''Ozempic treats, treats, treats, treats, treats worried.'']"
  unfolding praisePage_def by code_simp

lemma praise_context: "brandContextOf praisePage ''Ozempic'' = praiseContext"
  unfolding brandContextOf_def praise_sentences praiseContext_def by code_simp

lemma praise_inits:
  "boundaryInitials None praiseContext =
     [79, 32, 84, 44, 84, 44, 84, 44, 84, 44, 84, 32, 87, 46]"
  unfolding praiseContext_def by code_simp

lemma praise_positive: "countIndicators positiveIndicators praiseContext = (5, [''treat''])"
proof -
  have "filter (mayMatch [79, 32, 84, 44, 84, 44, 84, 44, 84, 44, 84, 32, 87, 46])
          positiveIndicators = [''treat'']"
    by code_simp
  then have "countIndicators positiveIndicators praiseContext =
      countIndicators [''treat''] praiseContext"
    using countIndicators_candidates [OF praise_inits, of positiveIndicators] by simp
  also have "\<dots> = (5, [''treat''])"
    unfolding praiseContext_def by code_simp
  finally show ?thesis .
qed

lemma praise_negative: "countIndicators negativeIndicators praiseContext = (1, [''worried''])"
proof -
  have "filter (mayMatch [79, 32, 84, 44, 84, 44, 84, 44, 84, 44, 84, 32, 87, 46])
          negativeIndicators = [''worried'']"
    by code_simp
  then have "countIndicators negativeIndicators praiseContext =
      countIndicators [''worried''] praiseContext"
    using countIndicators_candidates [OF praise_inits, of negativeIndicators] by simp
  also have "\<dots> = (1, [''worried''])"
    unfolding praiseContext_def by code_simp
  finally show ?thesis .
qed

lemma adverse_sentences:
  "brandSentencesOf adversePage ''Ozempic'' = ['' Ozempic: adverse!'']"
  unfolding adversePage_def by code_simp

lemma adverse_context: "brandContextOf adversePage ''Ozempic'' = adverseContext"
  unfolding brandContextOf_def adverse_sentences adverseContext_def by code_simp

lemma adverse_inits: "boundaryInitials None adverseContext = [79, 58, 65, 33]"
  unfolding adverseContext_def by code_simp

lemma adverse_positive: "countIndicators positiveIndicators adverseContext = (0, [])"
proof -
  have "filter (mayMatch [79, 58, 65, 33]) positiveIndicators =
          [''approved'', ''advance'', ''announce'', ''achieve'', ''award'']"
    by code_simp
  then have "countIndicators positiveIndicators adverseContext =
      countIndicators [''approved'', ''advance'', ''announce'', ''achieve'', ''award'']
        adverseContext"
    using countIndicators_candidates [OF adverse_inits, of positiveIndicators] by simp
  also have "\<dots> = (0, [])"
    unfolding adverseContext_def by code_simp
  finally show ?thesis .
qed

lemma adverse_negative: "countIndicators negativeIndicators adverseContext = (1, [''adverse''])"
proof -
  have "filter (mayMatch [79, 58, 65, 33]) negativeIndicators = [''adverse'', ''afraid'']"
    by code_simp
  then have "countIndicators negativeIndicators adverseContext =
      countIndicators [''adverse'', ''afraid''] adverseContext"
    using countIndicators_candidates [OF adverse_inits, of negativeIndicators] by simp
  also have "\<dots> = (1, [''adverse''])"
    unfolding adverseContext_def by code_simp
  finally show ?thesis .
qed

lemma praise_result:
  "analyzeBrandContext praisePage ''Ozempic'' =
     \<lparr> score = 3, classification = Positive, indicators = None,
       positiveCount = Some 5, negativeCount = Some 1,
       positive = Some [''treat''], negative = Some [''worried''],
       brandSentences = Some 1 \<rparr>"
proof -
  have ne: "brandSentencesOf praisePage ''Ozempic'' \<noteq> []"
    by (simp add: praise_sentences)
  show ?thesis
    unfolding analyzeBrandContext_def analyzeWith_some [OF ne]
    by (simp add: praise_context praise_positive praise_negative praise_sentences classify_def)
qed

lemma adverse_result:
  "analyzeBrandContext adversePage ''Ozempic'' =
     \<lparr> score = - 2, classification = Negative, indicators = None,
       positiveCount = Some 0, negativeCount = Some 1,
       positive = Some [], negative = Some [''adverse''],
       brandSentences = Some 1 \<rparr>"
proof -
  have ne: "brandSentencesOf adversePage ''Ozempic'' \<noteq> []"
    by (simp add: adverse_sentences)
  show ?thesis
    unfolding analyzeBrandContext_def analyzeWith_some [OF ne]
    by (simp add: adverse_context adverse_positive adverse_negative adverse_sentences classify_def)
qed

subsection \<open>Score and classification\<close>

text \<open>
  Claim C1. Whenever a context exists, the result carries the two occurrence counts
  \<open>p\<close> and \<open>n\<close> (both at least 0), its score is \<open>p - 2 * n\<close>, and its classification
  is decided in this order: positive if the score is at least 3, or \<open>p\<close> is at least 3
  with \<open>n = 0\<close>; otherwise negative if the score is below 0 or \<open>n\<close> is at least 1;
  otherwise neutral. The witness is a context with five positive occurrences and one
  negative occurrence: its score is 3 and it is positive although \<open>n = 1\<close>.
\<close>

theorem classification_by_priority:
  assumes "brandSentencesOf text brandName \<noteq> []"
  shows "score (analyzeBrandContext text brandName) =
           fst (countIndicators positiveIndicators (brandContextOf text brandName))
           - 2 * fst (countIndicators negativeIndicators (brandContextOf text brandName))
       \<and> positiveCount (analyzeBrandContext text brandName) =
           Some (fst (countIndicators positiveIndicators (brandContextOf text brandName)))
       \<and> negativeCount (analyzeBrandContext text brandName) =
           Some (fst (countIndicators negativeIndicators (brandContextOf text brandName)))
       \<and> 0 \<le> fst (countIndicators positiveIndicators (brandContextOf text brandName))
       \<and> 0 \<le> fst (countIndicators negativeIndicators (brandContextOf text brandName))
       \<and> classification (analyzeBrandContext text brandName) =
           (if score (analyzeBrandContext text brandName) \<ge> 3
               \<or> (fst (countIndicators positiveIndicators (brandContextOf text brandName)) \<ge> 3
                  \<and> fst (countIndicators negativeIndicators (brandContextOf text brandName)) = 0)
            then Positive
            else if score (analyzeBrandContext text brandName) < 0
               \<or> fst (countIndicators negativeIndicators (brandContextOf text brandName)) \<ge> 1
            then Negative
            else Neutral)"
proof -
  let ?p = "fst (countIndicators positiveIndicators (brandContextOf text brandName))"
  let ?n = "fst (countIndicators negativeIndicators (brandContextOf text brandName))"
  have r: "analyzeBrandContext text brandName =
      \<lparr> score = ?p - ?n * 2, classification = classify (?p - ?n * 2) ?p ?n,
        indicators = None, positiveCount = Some ?p, negativeCount = Some ?n,
        positive = Some (snd (countIndicators positiveIndicators (brandContextOf text brandName))),
        negative = Some (snd (countIndicators negativeIndicators (brandContextOf text brandName))),
        brandSentences = Some (length (brandSentencesOf text brandName)) \<rparr>"
    unfolding analyzeBrandContext_def by (rule analyzeWith_some [OF assms])
  have "0 \<le> ?p" "0 \<le> ?n" by (rule countIndicators_nonneg)+
  then show ?thesis unfolding r by (simp add: classify_def)
qed

theorem classification_by_priority_witness:
  "brandSentencesOf praisePage ''Ozempic'' \<noteq> []
   \<and> positiveCount (analyzeBrandContext praisePage ''Ozempic'') = Some 5
   \<and> negativeCount (analyzeBrandContext praisePage ''Ozempic'') = Some 1
   \<and> score (analyzeBrandContext praisePage ''Ozempic'') = 3
   \<and> classification (analyzeBrandContext praisePage ''Ozempic'') = Positive"
proof -
  have ne: "brandSentencesOf praisePage ''Ozempic'' \<noteq> []"
    by (simp add: praise_sentences)
  show ?thesis
    using ne classification_by_priority [OF ne]
    by (simp add: praise_context praise_positive praise_negative)
qed


text \<open>
  Claim C10. Whenever a context exists, a positive result has a positive count of at
  least 3, and a negative result has a negative count of at least 1.
\<close>

theorem classification_bounds_counts:
  assumes "brandSentencesOf text brandName \<noteq> []"
  shows "(classification (analyzeBrandContext text brandName) = Positive \<longrightarrow>
            (\<exists>p. positiveCount (analyzeBrandContext text brandName) = Some p \<and> 3 \<le> p))
       \<and> (classification (analyzeBrandContext text brandName) = Negative \<longrightarrow>
            (\<exists>n. negativeCount (analyzeBrandContext text brandName) = Some n \<and> 1 \<le> n))"
proof -
  let ?p = "fst (countIndicators positiveIndicators (brandContextOf text brandName))"
  let ?n = "fst (countIndicators negativeIndicators (brandContextOf text brandName))"
  have p: "0 \<le> ?p" and n: "0 \<le> ?n" by (rule countIndicators_nonneg)+
  have c: "classification (analyzeBrandContext text brandName) = classify (?p - ?n * 2) ?p ?n"
    and pc: "positiveCount (analyzeBrandContext text brandName) = Some ?p"
    and nc: "negativeCount (analyzeBrandContext text brandName) = Some ?n"
    unfolding analyzeBrandContext_def analyzeWith_some [OF assms] by simp_all
  have "classify (?p - ?n * 2) ?p ?n = Positive \<Longrightarrow> 3 \<le> ?p"
    using p n by (auto simp: classify_def split: if_splits)
  moreover have "classify (?p - ?n * 2) ?p ?n = Negative \<Longrightarrow> 1 \<le> ?n"
    using p n by (auto simp: classify_def split: if_splits)
  ultimately show ?thesis unfolding c pc nc by blast
qed

theorem classification_bounds_counts_witness:
  "brandSentencesOf praisePage ''Ozempic'' \<noteq> []
   \<and> classification (analyzeBrandContext praisePage ''Ozempic'') = Positive
   \<and> (\<exists>p. positiveCount (analyzeBrandContext praisePage ''Ozempic'') = Some p \<and> 3 \<le> p)
   \<and> brandSentencesOf adversePage ''Ozempic'' \<noteq> []
   \<and> classification (analyzeBrandContext adversePage ''Ozempic'') = Negative
   \<and> (\<exists>n. negativeCount (analyzeBrandContext adversePage ''Ozempic'') = Some n \<and> 1 \<le> n)"
proof -
  have ne1: "brandSentencesOf praisePage ''Ozempic'' \<noteq> []"
    by (simp add: praise_sentences)
  have ne2: "brandSentencesOf adversePage ''Ozempic'' \<noteq> []"
    by (simp add: adverse_sentences)
  have c1: "classification (analyzeBrandContext praisePage ''Ozempic'') = Positive"
    by (simp add: praise_result)
  have c2: "classification (analyzeBrandContext adversePage ''Ozempic'') = Negative"
    by (simp add: adverse_result)
  show ?thesis
    using ne1 ne2 c1 c2
      classification_bounds_counts [OF ne1] classification_bounds_counts [OF ne2]
    by blast
qed

subsection \<open>Occurrence counts and unique words\<close>

text \<open>
  Claim C4. Whenever a context exists, the positive (negative) count is the number of
  matches of \<^verbatim>\<open>\b<word>\<close> in the lower-cased context, summed over the words of the
  positive (negative) list, so every match adds one; the list of found words holds each
  word with a match exactly once, in the order of the indicator list; and so each count
  is at least the length of its list of found words.
\<close>

theorem counts_and_unique_words:
  assumes "brandSentencesOf text brandName \<noteq> []"
  shows "positiveCount (analyzeBrandContext text brandName) =
           Some (\<Sum>w\<leftarrow>positiveIndicators. int (occurrences (brandContextOf text brandName) w))
       \<and> positive (analyzeBrandContext text brandName) =
           Some (filter (\<lambda>w. occurrences (brandContextOf text brandName) w \<noteq> 0) positiveIndicators)
       \<and> negativeCount (analyzeBrandContext text brandName) =
           Some (\<Sum>w\<leftarrow>negativeIndicators. int (occurrences (brandContextOf text brandName) w))
       \<and> negative (analyzeBrandContext text brandName) =
           Some (filter (\<lambda>w. occurrences (brandContextOf text brandName) w \<noteq> 0) negativeIndicators)
       \<and> distinct (filter (\<lambda>w. occurrences (brandContextOf text brandName) w \<noteq> 0) positiveIndicators)
       \<and> distinct (filter (\<lambda>w. occurrences (brandContextOf text brandName) w \<noteq> 0) negativeIndicators)
       \<and> int (length (filter (\<lambda>w. occurrences (brandContextOf text brandName) w \<noteq> 0) positiveIndicators))
           \<le> (\<Sum>w\<leftarrow>positiveIndicators. int (occurrences (brandContextOf text brandName) w))
       \<and> int (length (filter (\<lambda>w. occurrences (brandContextOf text brandName) w \<noteq> 0) negativeIndicators))
           \<le> (\<Sum>w\<leftarrow>negativeIndicators. int (occurrences (brandContextOf text brandName) w))"
proof -
  let ?ctx = "brandContextOf text brandName"
  have pc: "positiveCount (analyzeBrandContext text brandName) =
      Some (fst (countIndicators positiveIndicators ?ctx))"
    and pw: "positive (analyzeBrandContext text brandName) =
      Some (snd (countIndicators positiveIndicators ?ctx))"
    and nc: "negativeCount (analyzeBrandContext text brandName) =
      Some (fst (countIndicators negativeIndicators ?ctx))"
    and nw: "negative (analyzeBrandContext text brandName) =
      Some (snd (countIndicators negativeIndicators ?ctx))"
    unfolding analyzeBrandContext_def analyzeWith_some [OF assms] by simp_all
  have ps: "snd (countIndicators positiveIndicators ?ctx) =
      filter (\<lambda>w. occurrences ?ctx w \<noteq> 0) positiveIndicators"
    by (rule countIndicators_snd [OF distinct_positiveIndicators])
  have ns: "snd (countIndicators negativeIndicators ?ctx) =
      filter (\<lambda>w. occurrences ?ctx w \<noteq> 0) negativeIndicators"
    by (rule countIndicators_snd [OF distinct_negativeIndicators])
  have pl: "int (length (filter (\<lambda>w. occurrences ?ctx w \<noteq> 0) positiveIndicators))
      \<le> (\<Sum>w\<leftarrow>positiveIndicators. int (occurrences ?ctx w))"
    using countIndicators_length [of positiveIndicators ?ctx]
    unfolding ps countIndicators_fst .
  have nl: "int (length (filter (\<lambda>w. occurrences ?ctx w \<noteq> 0) negativeIndicators))
      \<le> (\<Sum>w\<leftarrow>negativeIndicators. int (occurrences ?ctx w))"
    using countIndicators_length [of negativeIndicators ?ctx]
    unfolding ns countIndicators_fst .
  have pd: "distinct (filter (\<lambda>w. occurrences ?ctx w \<noteq> 0) positiveIndicators)"
    using distinct_positiveIndicators by (rule distinct_filter)
  have nd: "distinct (filter (\<lambda>w. occurrences ?ctx w \<noteq> 0) negativeIndicators)"
    using distinct_negativeIndicators by (rule distinct_filter)
  show ?thesis
    unfolding pc pw nc nw ps ns countIndicators_fst
    using pl nl pd nd by simp
qed

theorem counts_and_unique_words_witness:
  "brandSentencesOf praisePage ''Ozempic'' \<noteq> []
   \<and> positiveCount (analyzeBrandContext praisePage ''Ozempic'') =
       Some (\<Sum>w\<leftarrow>positiveIndicators. int (occurrences praiseContext w))
   \<and> (\<Sum>w\<leftarrow>positiveIndicators. int (occurrences praiseContext w)) = 5
   \<and> positive (analyzeBrandContext praisePage ''Ozempic'') =
       Some (filter (\<lambda>w. occurrences praiseContext w \<noteq> 0) positiveIndicators)
   \<and> filter (\<lambda>w. occurrences praiseContext w \<noteq> 0) positiveIndicators = [''treat'']"
proof -
  have ne: "brandSentencesOf praisePage ''Ozempic'' \<noteq> []"
    by (simp add: praise_sentences)
  have five: "(\<Sum>w\<leftarrow>positiveIndicators. int (occurrences praiseContext w)) = 5"
    using countIndicators_fst [of positiveIndicators praiseContext]
    by (simp add: praise_positive)
  have once: "filter (\<lambda>w. occurrences praiseContext w \<noteq> 0) positiveIndicators = [''treat'']"
    using countIndicators_snd [OF distinct_positiveIndicators, of praiseContext]
    by (simp add: praise_positive)
  show ?thesis
    using ne five once counts_and_unique_words [OF ne]
    by (simp add: praise_context)
qed

subsection \<open>The neutral word list\<close>

text \<open>
  Claim C5. The result does not depend on the neutral-medical list: with any list in
  its place, the empty one included, the analysis is the same, and the negative count
  and the negative words are those of the negative indicator list alone. The witness
  is a context with the word \<^verbatim>\<open>adverse\<close>, which is in both lists and is counted as
  negative.
\<close>

theorem neutral_list_has_no_effect:
  "analyzeWith positiveIndicators negativeIndicators neutralWords text brandName =
     analyzeBrandContext text brandName
   \<and> analyzeWith positiveIndicators negativeIndicators [] text brandName =
     analyzeBrandContext text brandName
   \<and> negativeCount (analyzeBrandContext text brandName) =
       (if brandSentencesOf text brandName = [] then None
        else Some (\<Sum>w\<leftarrow>negativeIndicators.
                     int (occurrences (brandContextOf text brandName) w)))
   \<and> negative (analyzeBrandContext text brandName) =
       (if brandSentencesOf text brandName = [] then None
        else Some (filter (\<lambda>w. occurrences (brandContextOf text brandName) w \<noteq> 0)
                     negativeIndicators))"
proof -
  have same: "analyzeWith positiveIndicators negativeIndicators ws text brandName =
      analyzeBrandContext text brandName" for ws
    by (simp add: analyzeBrandContext_def analyzeWith_def)
  show ?thesis
  proof (cases "brandSentencesOf text brandName = []")
    case True
    then show ?thesis
      using same by (simp add: analyzeBrandContext_def analyzeWith_none)
  next
    case False
    then show ?thesis
      using same
      by (simp add: analyzeBrandContext_def analyzeWith_some countIndicators_fst
          countIndicators_snd [OF distinct_negativeIndicators])
  qed
qed

theorem neutral_list_has_no_effect_witness:
  "''adverse'' \<in> set neutralMedical
   \<and> brandContextOf adversePage ''Ozempic'' = adverseContext
   \<and> negativeCount (analyzeBrandContext adversePage ''Ozempic'') = Some 1
   \<and> negative (analyzeBrandContext adversePage ''Ozempic'') = Some [''adverse'']"
proof -
  have ne: "brandSentencesOf adversePage ''Ozempic'' \<noteq> []"
    by (simp add: adverse_sentences)
  have one: "(\<Sum>w\<leftarrow>negativeIndicators. int (occurrences adverseContext w)) = 1"
    using countIndicators_fst [of negativeIndicators adverseContext]
    by (simp add: adverse_negative)
  have word: "filter (\<lambda>w. occurrences adverseContext w \<noteq> 0) negativeIndicators = [''adverse'']"
    using countIndicators_snd [OF distinct_negativeIndicators, of adverseContext]
    by (simp add: adverse_negative)
  have mem: "''adverse'' \<in> set neutralMedical"
    by (simp add: neutralMedical_def)
  show ?thesis
    using ne one word mem neutral_list_has_no_effect [of neutralMedical adversePage "''Ozempic''"]
    by (simp add: adverse_context)
qed

subsection \<open>The sentence filter\<close>

lemma regexTest_zero:
  "regexTest vs 0 s = (if containsBrand vs s then (True, the (execSuffix vs s)) else (False, 0))"
  by (auto simp: regexTest_def containsBrand_def split: option.splits)

lemma filterBrand_none:
  "filter (containsBrand vs) ss = [] \<Longrightarrow> filterBrand vs 0 ss = []"
  by (induction ss) (simp_all add: regexTest_zero split: if_splits)

lemma filterBrand_first:
  "filter (containsBrand vs) ss \<noteq> [] \<Longrightarrow> filterBrand vs 0 ss \<noteq> []"
  by (induction ss) (simp_all add: regexTest_zero split: if_splits)

lemma brandSentencesOf_nil_iff:
  "(brandSentencesOf text b = []) = (sentencesContainingBrand text b = [])"
  unfolding brandSentencesOf_def sentencesContainingBrand_def
  using filterBrand_none filterBrand_first by blast

lemma execSuffix_drop:
  "execSuffix vs (drop k s) \<noteq> None \<Longrightarrow> execSuffix vs s \<noteq> None"
proof (induction s arbitrary: k)
  case Nil
  then show ?case by simp
next
  case (Cons c cs)
  show ?case
  proof (cases k)
    case 0
    with Cons.prems show ?thesis by simp
  next
    case (Suc j)
    with Cons.prems have "execSuffix vs (drop j cs) \<noteq> None" by simp
    then have "execSuffix vs cs \<noteq> None" by (rule Cons.IH)
    then show ?thesis by (auto split: option.splits)
  qed
qed

lemma regexTest_contains: "fst (regexTest vs li s) \<Longrightarrow> containsBrand vs s"
  using execSuffix_drop [of vs li s]
  by (auto simp: regexTest_def containsBrand_def split: if_splits option.splits)

lemma filterBrand_subset:
  "set (filterBrand vs li ss) \<subseteq> set (filter (containsBrand vs) ss)"
proof (induction ss arbitrary: li)
  case Nil
  then show ?case by simp
next
  case (Cons s ss)
  show ?case
  proof (cases "regexTest vs li s")
    case (Pair ok li')
    then show ?thesis
      using Cons.IH [of li'] regexTest_contains [of vs li s]
      by (cases ok) auto
  qed
qed

text \<open>
  Claim C2 (the code differs). When the brand matcher matches in no sentence of the
  text, the result has score 0 and is neutral, and carries an empty list
  \<^verbatim>\<open>indicators\<close>; it has no \<^verbatim>\<open>positiveCount\<close>, \<^verbatim>\<open>negativeCount\<close>,
  \<^verbatim>\<open>positive\<close> or \<^verbatim>\<open>negative\<close>. The witness is the empty text.
\<close>

theorem no_context_result_lacks_counts:
  assumes "sentencesContainingBrand text brandName = []"
  shows "analyzeBrandContext text brandName =
     \<lparr> score = 0, classification = Neutral, indicators = Some [],
       positiveCount = None, negativeCount = None,
       positive = None, negative = None, brandSentences = None \<rparr>"
proof -
  have "brandSentencesOf text brandName = []"
    using assms by (simp add: brandSentencesOf_nil_iff)
  then show ?thesis
    unfolding analyzeBrandContext_def by (rule analyzeWith_none)
qed

theorem no_context_result_lacks_counts_witness:
  "sentencesContainingBrand [] ''Cambria'' = []
   \<and> score (analyzeBrandContext [] ''Cambria'') = 0
   \<and> classification (analyzeBrandContext [] ''Cambria'') = Neutral
   \<and> indicators (analyzeBrandContext [] ''Cambria'') = Some []
   \<and> positiveCount (analyzeBrandContext [] ''Cambria'') = None
   \<and> negativeCount (analyzeBrandContext [] ''Cambria'') = None
   \<and> positive (analyzeBrandContext [] ''Cambria'') = None
   \<and> negative (analyzeBrandContext [] ''Cambria'') = None"
proof -
  have "splitSentences [] = []" by (simp add: splitSentences.simps)
  then have e: "sentencesContainingBrand [] ''Cambria'' = []"
    by (simp add: sentencesContainingBrand_def)
  show ?thesis
    using e no_context_result_lacks_counts [OF e] by simp
qed

text \<open>
  Claim C3 (the code differs). The text \<^verbatim>\<open>We love Cambria. Cambria rocks.\<close> has
  two sentences, and the brand matcher matches in both; the code keeps the first only,
  because the test of the second starts at the \<^verbatim>\<open>lastIndex\<close> the first left
  behind.
\<close>

theorem filter_drops_matching_sentence:
  "splitSentences ''We love Cambria. Cambria rocks.'' = [''We love Cambria.'', '' Cambria rocks.'']
   \<and> sentencesContainingBrand ''We love Cambria. Cambria rocks.'' ''Cambria'' =
       [''We love Cambria.'', '' Cambria rocks.'']
   \<and> regexTest (brandVariations ''Cambria'') 0 ''We love Cambria.'' = (True, 15)
   \<and> regexTest (brandVariations ''Cambria'') 15 '' Cambria rocks.'' = (False, 0)
   \<and> brandSentencesOf ''We love Cambria. Cambria rocks.'' ''Cambria'' = [''We love Cambria.'']
   \<and> brandSentences (analyzeBrandContext ''We love Cambria. Cambria rocks.'' ''Cambria'') = Some 1"
proof -
  have s: "splitSentences ''We love Cambria. Cambria rocks.'' =
      [''We love Cambria.'', '' Cambria rocks.'']"
    by code_simp
  have v: "brandVariations ''Cambria'' =
      [''Cambria'', ''Cambria'', ''Cambria'', ''Cambria'',
       ''Cambria'' @ [CHR 0x27, CHR ''s''], ''Cambria'', ''Cambria'' @ [CHR 0x27, CHR ''s'']]"
    by code_simp
  have c: "sentencesContainingBrand ''We love Cambria. Cambria rocks.'' ''Cambria'' =
      [''We love Cambria.'', '' Cambria rocks.'']"
    unfolding sentencesContainingBrand_def s v by code_simp
  have t1: "regexTest (brandVariations ''Cambria'') 0 ''We love Cambria.'' = (True, 15)"
    unfolding v by code_simp
  have t2: "regexTest (brandVariations ''Cambria'') 15 '' Cambria rocks.'' = (False, 0)"
    unfolding v by code_simp
  have b: "brandSentencesOf ''We love Cambria. Cambria rocks.'' ''Cambria'' = [''We love Cambria.'']"
    unfolding brandSentencesOf_def s by (simp add: t1 t2)
  have "brandSentences (analyzeBrandContext ''We love Cambria. Cambria rocks.'' ''Cambria'') = Some 1"
    using b by (simp add: analyzeBrandContext_def analyzeWith_def brandSentencesOf_def Let_def)
  with s c t1 t2 b show ?thesis by blast
qed

text \<open>
  Claim C6 (the code differs). For \<^verbatim>\<open>WKKellogg\<close> the camel-case variation is
  \<^verbatim>\<open>W K Kellogg\<close>: the replacement puts a space before every capital, the first
  included, and \<^verbatim>\<open>trim\<close> removes the leading one only. The form
  \<^verbatim>\<open>WK Kellogg\<close> comes from the next variation; the matcher finds the brand in
  \<^verbatim>\<open>WK Kellogg\<close>, \<^verbatim>\<open>Kellogg's\<close> and \<^verbatim>\<open>kellogg\<close>, and not in
  \<^verbatim>\<open>Cambria\<close>.
\<close>

theorem camel_case_variation_of_WKKellogg:
  "trim (spaceBeforeUpper ''WKKellogg'') = ''W K Kellogg''
   \<and> wkPrefixSpaced ''WKKellogg'' = ''WK Kellogg''
   \<and> stripWK ''WKKellogg'' = ''Kellogg''
   \<and> containsBrand (brandVariations ''WKKellogg'') ''WK Kellogg''
   \<and> containsBrand (brandVariations ''WKKellogg'') (''Kellogg'' @ [CHR 0x27, CHR ''s''])
   \<and> containsBrand (brandVariations ''WKKellogg'') ''kellogg''
   \<and> \<not> containsBrand (brandVariations ''WKKellogg'') ''Cambria''"
  by code_simp


section \<open>Properties of the aggregation\<close>

subsection \<open>Dictionaries\<close>

lemma map_of_setProp: "map_of (setProp k v obj) = (map_of obj)(k \<mapsto> v)"
  by (induction obj) (auto simp: fun_eq_iff)

lemma keys_setProp: "set (map fst (setProp k v obj)) = insert k (set (map fst obj))"
  by (induction obj) auto

lemma distinct_setProp: "distinct (map fst obj) \<Longrightarrow> distinct (map fst (setProp k v obj))"
  by (induction obj) (auto simp: keys_setProp simp del: set_map)

lemma mset_objectEntries: "mset (objectEntries obj) = mset obj"
  by (simp add: objectEntries_def)

subsection \<open>The loop, one dictionary at a time\<close>

definition mentionStep ::
  "(string \<Rightarrow> string option) \<Rightarrow> nat jsobject \<Rightarrow> 's page \<Rightarrow> nat jsobject" where
  "mentionStep h m r =
     (if mentionsBrand r
      then setProp (getDomain h (url r))
             ((case map_of m (getDomain h (url r)) of None \<Rightarrow> 0 | Some c \<Rightarrow> c)
              + mentionCount r) m
      else m)"

definition counted :: "'s page \<Rightarrow> bool" where
  "counted r = (mentionsBrand r \<and> pageClassification r \<noteq> None)"

definition sentimentStep ::
  "(string \<Rightarrow> string option) \<Rightarrow> tally jsobject \<Rightarrow> 's page \<Rightarrow> tally jsobject" where
  "sentimentStep h s r = snd (tallyPage h ([], s) r)"

lemma tallyPage_split:
  "tallyPage h acc r = (mentionStep h (fst acc) r, sentimentStep h (snd acc) r)"
  by (simp add: tallyPage_def mentionStep_def sentimentStep_def getProp_def Let_def
      split: option.splits)

lemma foldl_tallyPage:
  "foldl (tallyPage h) acc rs =
     (foldl (mentionStep h) (fst acc) rs, foldl (sentimentStep h) (snd acc) rs)"
proof (induction rs arbitrary: acc)
  case Nil
  then show ?case by simp
next
  case (Cons r rs)
  show ?case
    using Cons.IH [of "tallyPage h acc r"] by (simp add: tallyPage_split [of h acc r])
qed

lemma domainMentionsOf_fold: "domainMentionsOf h rs = foldl (mentionStep h) [] rs"
  by (simp add: domainMentionsOf_def foldl_tallyPage)

lemma domainSentimentsOf_fold: "domainSentimentsOf h rs = foldl (sentimentStep h) [] rs"
  by (simp add: domainSentimentsOf_def foldl_tallyPage)

lemma sentimentStep_skip: "\<not> counted r \<Longrightarrow> sentimentStep h s r = s"
  by (auto simp: sentimentStep_def tallyPage_def counted_def Let_def)

lemma map_of_sentimentStep:
  "counted r \<Longrightarrow>
   map_of (sentimentStep h s r) =
     (map_of s)(getDomain h (url r) \<mapsto>
        increment (the (pageClassification r))
          (case map_of s (getDomain h (url r)) of None \<Rightarrow> emptyTally | Some t \<Rightarrow> t))"
  by (auto simp: sentimentStep_def tallyPage_def counted_def Let_def getProp_def
      map_of_setProp fun_eq_iff split: option.splits)

lemma distinct_sentimentStep:
  "distinct (map fst s) \<Longrightarrow> distinct (map fst (sentimentStep h s r))"
  by (auto simp: sentimentStep_def tallyPage_def Let_def distinct_setProp
      split: option.splits)

lemma distinct_mentionStep:
  "distinct (map fst m) \<Longrightarrow> distinct (map fst (mentionStep h m r))"
  by (simp add: mentionStep_def distinct_setProp)

lemma distinct_foldl_mentionStep:
  "distinct (map fst m) \<Longrightarrow> distinct (map fst (foldl (mentionStep h) m rs))"
  by (induction rs arbitrary: m) (simp_all add: distinct_mentionStep)

lemma distinct_domainMentionsOf: "distinct (map fst (domainMentionsOf h rs))"
  by (simp add: domainMentionsOf_fold distinct_foldl_mentionStep)

subsection \<open>What the dictionaries hold\<close>

definition contributes :: "(string \<Rightarrow> string option) \<Rightarrow> string \<Rightarrow> 's page \<Rightarrow> bool" where
  "contributes h d r = (mentionsBrand r \<and> getDomain h (url r) = d)"

definition mentionTotal :: "(string \<Rightarrow> string option) \<Rightarrow> 's page list \<Rightarrow> string \<Rightarrow> nat" where
  "mentionTotal h rs d = sum_list (map mentionCount (filter (contributes h d) rs))"

lemma getProp_domainMentionsOf:
  "getProp (domainMentionsOf h rs) d =
     (if filter (contributes h d) rs = [] then None else Some (mentionTotal h rs d))"
proof (induction rs rule: rev_induct)
  case Nil
  then show ?case by (simp add: getProp_def domainMentionsOf_fold)
next
  case (snoc r rs)
  have ih: "map_of (foldl (mentionStep h) [] rs) d =
      (if filter (contributes h d) rs = [] then None else Some (mentionTotal h rs d))"
    using snoc by (simp add: getProp_def domainMentionsOf_fold)
  show ?case
  proof (cases "contributes h d r")
    case False
    then have "\<not> mentionsBrand r \<or> getDomain h (url r) \<noteq> d"
      by (simp add: contributes_def)
    then show ?thesis
      using ih False
      by (auto simp: getProp_def domainMentionsOf_fold mentionStep_def map_of_setProp
          mentionTotal_def)
  next
    case True
    then have mb: "mentionsBrand r" and d: "getDomain h (url r) = d"
      by (simp_all add: contributes_def)
    have "(case map_of (foldl (mentionStep h) [] rs) d of None \<Rightarrow> 0 | Some c \<Rightarrow> c) =
        mentionTotal h rs d"
      using ih by (simp add: mentionTotal_def)
    then show ?thesis
      using True mb d
      by (simp add: getProp_def domainMentionsOf_fold mentionStep_def map_of_setProp
          mentionTotal_def)
  qed
qed

definition classed ::
  "(string \<Rightarrow> string option) \<Rightarrow> string \<Rightarrow> classification \<Rightarrow> 's page \<Rightarrow> bool" where
  "classed h d cl r = (contributes h d r \<and> pageClassification r = Some cl)"

definition tallyFor :: "(string \<Rightarrow> string option) \<Rightarrow> 's page list \<Rightarrow> string \<Rightarrow> tally" where
  "tallyFor h rs d =
     \<lparr> tPositive = length (filter (classed h d Positive) rs),
       tNeutral = length (filter (classed h d Neutral) rs),
       tNegative = length (filter (classed h d Negative) rs),
       tUnknown = (filter (classed h d Unknown) rs \<noteq> []) \<rparr>"

lemma tallyFor_Nil: "tallyFor h [] d = emptyTally"
  by (simp add: tallyFor_def emptyTally_def)

lemma classed_counted: "classed h d cl r \<Longrightarrow> counted r \<and> getDomain h (url r) = d"
  by (simp add: classed_def contributes_def counted_def)

lemma tallyFor_snoc_other:
  "\<not> (counted r \<and> getDomain h (url r) = d) \<Longrightarrow> tallyFor h (rs @ [r]) d = tallyFor h rs d"
  using classed_counted [of h d _ r] by (auto simp: tallyFor_def)

lemma tallyFor_snoc_same:
  "mentionsBrand r \<Longrightarrow> pageClassification r = Some cl \<Longrightarrow>
   tallyFor h (rs @ [r]) (getDomain h (url r)) = increment cl (tallyFor h rs (getDomain h (url r)))"
proof -
  assume mb: "mentionsBrand r" and c: "pageClassification r = Some cl"
  have "classed h (getDomain h (url r)) cl' r = (cl' = cl)" for cl'
    using mb c by (auto simp: classed_def contributes_def)
  then show ?thesis by (cases cl) (simp_all add: tallyFor_def)
qed

lemma tallyFor_none:
  "filter (\<lambda>r. counted r \<and> getDomain h (url r) = d) rs = [] \<Longrightarrow> tallyFor h rs d = emptyTally"
  using classed_counted [of h d]
  by (simp add: tallyFor_def emptyTally_def filter_empty_conv) blast

lemma getProp_domainSentimentsOf:
  "getProp (domainSentimentsOf h rs) d =
     (if filter (\<lambda>r. counted r \<and> getDomain h (url r) = d) rs = [] then None
      else Some (tallyFor h rs d))"
proof (induction rs rule: rev_induct)
  case Nil
  then show ?case by (simp add: getProp_def domainSentimentsOf_fold)
next
  case (snoc r rs)
  show ?case
  proof (cases "counted r")
    case False
    then show ?thesis
      using snoc
      by (simp add: getProp_def domainSentimentsOf_fold sentimentStep_skip tallyFor_snoc_other)
  next
    case True
    then obtain cl where cl: "pageClassification r = Some cl" and mb: "mentionsBrand r"
      by (auto simp: counted_def)
    show ?thesis
    proof (cases "getDomain h (url r) = d")
      case False
      then show ?thesis
        using snoc True
        by (simp add: getProp_def domainSentimentsOf_fold map_of_sentimentStep
            tallyFor_snoc_other)
    next
      case same: True
      have "map_of (foldl (sentimentStep h) [] rs) d =
          (if filter (\<lambda>r. counted r \<and> getDomain h (url r) = d) rs = [] then None
           else Some (tallyFor h rs d))"
        using snoc by (simp add: getProp_def domainSentimentsOf_fold)
      then have "(case map_of (foldl (sentimentStep h) [] rs) d of
            None \<Rightarrow> emptyTally | Some t \<Rightarrow> t) = tallyFor h rs d"
        by (simp add: tallyFor_none)
      then show ?thesis
        using True same cl mb tallyFor_snoc_same [OF mb cl, of h rs]
        by (simp add: getProp_def domainSentimentsOf_fold map_of_sentimentStep)
    qed
  qed
qed

subsection \<open>Permutations of the pages\<close>

lemma perm_filter_length:
  "mset xs = mset ys \<Longrightarrow> length (filter P xs) = length (filter P ys)"
proof -
  assume "mset xs = mset ys"
  then have "mset (filter P xs) = mset (filter P ys)" by (simp add: mset_filter)
  then show ?thesis by (rule mset_eq_length)
qed

lemma perm_filter_nil:
  "mset xs = mset ys \<Longrightarrow> (filter P xs = []) = (filter P ys = [])"
  using perm_filter_length [of xs ys P] by (metis length_0_conv)

lemma perm_filter_sum:
  fixes f :: "'a \<Rightarrow> nat"
  shows "mset xs = mset ys \<Longrightarrow>
   sum_list (map f (filter P xs)) = sum_list (map f (filter P ys))"
proof -
  assume "mset xs = mset ys"
  then have "mset (map f (filter P xs)) = mset (map f (filter P ys))"
    by (simp add: mset_filter)
  then have "sum_mset (mset (map f (filter P xs))) = sum_mset (mset (map f (filter P ys)))"
    by simp
  then show ?thesis by (simp only: sum_mset_sum_list)
qed

lemma perm_domainMentions:
  assumes "mset rs = mset rs'"
  shows "getProp (domainMentionsOf h rs') = getProp (domainMentionsOf h rs)"
proof
  fix d
  show "getProp (domainMentionsOf h rs') d = getProp (domainMentionsOf h rs) d"
    unfolding getProp_domainMentionsOf mentionTotal_def
    using perm_filter_nil [OF assms, of "contributes h d"]
      perm_filter_sum [OF assms, of mentionCount "contributes h d"]
    by simp
qed

lemma perm_tallyFor:
  assumes "mset rs = mset rs'"
  shows "tallyFor h rs' d = tallyFor h rs d"
  unfolding tallyFor_def
  using perm_filter_length [OF assms, of "classed h d Positive"]
    perm_filter_length [OF assms, of "classed h d Neutral"]
    perm_filter_length [OF assms, of "classed h d Negative"]
    perm_filter_nil [OF assms, of "classed h d Unknown"]
  by simp

lemma perm_domainSentiments:
  assumes "mset rs = mset rs'"
  shows "getProp (domainSentimentsOf h rs') = getProp (domainSentimentsOf h rs)"
proof
  fix d
  show "getProp (domainSentimentsOf h rs') d = getProp (domainSentimentsOf h rs) d"
    unfolding getProp_domainSentimentsOf perm_tallyFor [OF assms]
    using perm_filter_nil [OF assms, of "\<lambda>r. counted r \<and> getDomain h (url r) = d"]
    by simp
qed

lemma perm_domainMentions_mset:
  assumes "mset rs = mset rs'"
  shows "mset (domainMentionsOf h rs') = mset (domainMentionsOf h rs)"
proof -
  have d: "distinct (map fst (domainMentionsOf h rs))"
    and d': "distinct (map fst (domainMentionsOf h rs'))"
    by (rule distinct_domainMentionsOf)+
  have "map_of (domainMentionsOf h rs') = map_of (domainMentionsOf h rs)"
    using perm_domainMentions [OF assms, of h] by (simp add: getProp_def fun_eq_iff)
  then have "set (domainMentionsOf h rs') = set (domainMentionsOf h rs)"
    using map_of_inject_set [OF d' d] by simp
  moreover have "distinct (domainMentionsOf h rs)" "distinct (domainMentionsOf h rs')"
    using d d' by (auto simp: distinct_map)
  ultimately show ?thesis
    using set_eq_iff_mset_eq_distinct by blast
qed

subsection \<open>The ranking\<close>

definition ranked :: "(string \<Rightarrow> string option) \<Rightarrow> 's page list \<Rightarrow> (string \<times> nat) list" where
  "ranked h rs = sortByCountDesc (objectEntries (domainMentionsOf h rs))"

lemma mset_ranked: "mset (ranked h rs) = mset (domainMentionsOf h rs)"
  by (simp add: ranked_def sortByCountDesc_def mset_objectEntries)

lemma set_ranked: "set (ranked h rs) = set (domainMentionsOf h rs)"
  using mset_ranked [of h rs] by (rule mset_eq_setD)

lemma ranked_entry:
  "e \<in> set (ranked h rs) \<Longrightarrow> getProp (domainMentionsOf h rs) (fst e) = Some (snd e)"
  using distinct_domainMentionsOf [of h rs]
  by (simp add: set_ranked getProp_def)

lemma perm_ranked_counts:
  assumes "mset rs = mset rs'"
  shows "map snd (ranked h rs') = map snd (ranked h rs)"
proof -
  let ?k = "\<lambda>e :: string \<times> nat. - int (snd e)"
  have s: "sorted (map ?k (ranked h rs))" and s': "sorted (map ?k (ranked h rs'))"
    by (simp_all add: ranked_def sortByCountDesc_def sorted_sort_key)
  have "mset (ranked h rs') = mset (ranked h rs)"
    by (simp add: mset_ranked perm_domainMentions_mset [OF assms])
  then have "mset (map ?k (ranked h rs')) = mset (map ?k (ranked h rs))"
    by simp
  then have "sort (map ?k (ranked h rs)) = map ?k (ranked h rs')"
    using s' by (rule properties_for_sort)
  then have k: "map ?k (ranked h rs') = map ?k (ranked h rs)"
    using s by (simp add: sorted_sort_id)
  have "map snd xs = map (\<lambda>i. nat (- i)) (map ?k xs)" for xs :: "(string \<times> nat) list"
    by (induction xs) simp_all
  then show ?thesis using k by metis
qed

lemma perm_ranked_length:
  "mset rs = mset rs' \<Longrightarrow> length (ranked h rs') = length (ranked h rs)"
  using perm_ranked_counts [of rs rs' h] by (metis length_map)

lemma perm_ranked_nth:
  assumes p: "mset rs = mset rs'" and i: "i < length (ranked h rs)"
    and u: "\<And>d. getProp (domainMentionsOf h rs) d = Some (snd (ranked h rs ! i))
              \<Longrightarrow> d = fst (ranked h rs ! i)"
  shows "ranked h rs' ! i = ranked h rs ! i"
proof -
  have i': "i < length (ranked h rs')" using i perm_ranked_length [OF p] by simp
  have "map snd (ranked h rs') ! i = map snd (ranked h rs) ! i"
    by (simp add: perm_ranked_counts [OF p])
  then have c: "snd (ranked h rs' ! i) = snd (ranked h rs ! i)"
    using i i' by simp
  have "getProp (domainMentionsOf h rs') (fst (ranked h rs' ! i)) = Some (snd (ranked h rs' ! i))"
    using i' by (intro ranked_entry) simp
  then have "getProp (domainMentionsOf h rs) (fst (ranked h rs' ! i)) = Some (snd (ranked h rs ! i))"
    by (simp add: perm_domainMentions [OF p] c)
  then have "fst (ranked h rs' ! i) = fst (ranked h rs ! i)" by (rule u)
  with c show ?thesis by (simp add: prod_eq_iff)
qed

lemma topDomains_eq:
  "topDomains (generateDetailedInsights h rs) =
     map (\<lambda>e. \<lparr> tdDomain = fst e, tdCount = snd e,
                 tdSentiment = getProp (domainSentimentsOf h rs) (fst e) \<rparr>)
       (take 5 (ranked h rs))"
  by (simp add: generateDetailedInsights_def ranked_def Let_def)

lemma length_topDomains:
  "length (topDomains (generateDetailedInsights h rs)) = min (length (ranked h rs)) 5"
  by (simp add: topDomains_eq)

lemma nth_topDomains:
  "i < length (topDomains (generateDetailedInsights h rs)) \<Longrightarrow>
   topDomains (generateDetailedInsights h rs) ! i =
     \<lparr> tdDomain = fst (ranked h rs ! i), tdCount = snd (ranked h rs ! i),
       tdSentiment = getProp (domainSentimentsOf h rs) (fst (ranked h rs ! i)) \<rparr>"
  by (simp add: topDomains_eq)

lemma perm_topDomains_counts:
  assumes "mset rs = mset rs'"
  shows "map tdCount (topDomains (generateDetailedInsights h rs')) =
         map tdCount (topDomains (generateDetailedInsights h rs))"
proof -
  have "map tdCount (topDomains (generateDetailedInsights h xs)) = take 5 (map snd (ranked h xs))"
    for xs :: "'a page list"
    by (simp add: topDomains_eq take_map o_def)
  then show ?thesis by (simp add: perm_ranked_counts [OF assms])
qed

lemma perm_topDomains_nth:
  assumes p: "mset rs = mset rs'"
    and i: "i < length (topDomains (generateDetailedInsights h rs))"
    and u: "\<And>d. getProp (domainMentionsOf h rs) d =
                  Some (tdCount (topDomains (generateDetailedInsights h rs) ! i))
              \<Longrightarrow> d = tdDomain (topDomains (generateDetailedInsights h rs) ! i)"
  shows "topDomains (generateDetailedInsights h rs') ! i =
         topDomains (generateDetailedInsights h rs) ! i"
proof -
  have i': "i < length (topDomains (generateDetailedInsights h rs'))"
    using i by (simp add: length_topDomains perm_ranked_length [OF p])
  have ir: "i < length (ranked h rs)" using i by (simp add: length_topDomains)
  have "ranked h rs' ! i = ranked h rs ! i"
    using p ir
  proof (rule perm_ranked_nth)
    fix d
    assume "getProp (domainMentionsOf h rs) d = Some (snd (ranked h rs ! i))"
    then show "d = fst (ranked h rs ! i)"
      using u [of d] by (simp add: nth_topDomains [OF i])
  qed
  then show ?thesis
    by (simp add: nth_topDomains [OF i] nth_topDomains [OF i'] perm_domainSentiments [OF p])
qed

subsection \<open>Worked pages\<close>

text \<open>
  The hostnames the URL parser of the platform gives for the URLs of the examples;
  the other strings used in the examples are not URLs.
\<close>

definition exampleHostname :: "string \<Rightarrow> string option" where
  "exampleHostname u =
     (if u = ''https://www.example.com/a/b'' then Some ''www.example.com''
      else if u = ''https://www.example.com/c'' then Some ''www.example.com''
      else if u = ''https://news.example.org/x'' then Some ''news.example.org''
      else if u = ''https://awww.example.com/'' then Some ''awww.example.com''
      else None)"

definition pageA :: "unit page" where
  "pageA = \<lparr> url = ''https://www.example.com/a/b'', status = Success, mentionsBrand = True,
             mentionCount = 4, sentiment = Some (), pageClassification = Some Positive \<rparr>"

definition pageB :: "unit page" where
  "pageB = \<lparr> url = ''https://news.example.org/x'', status = Success, mentionsBrand = True,
             mentionCount = 1, sentiment = Some (), pageClassification = Some Negative \<rparr>"

definition pageC :: "unit page" where
  "pageC = \<lparr> url = ''https://www.example.com/c'', status = Success, mentionsBrand = True,
             mentionCount = 2, sentiment = Some (), pageClassification = Some Neutral \<rparr>"

text \<open>The record \<^verbatim>\<open>processURL\<close> leaves when the page cannot be fetched.\<close>

definition pageE :: "unit page" where
  "pageE = \<lparr> url = ''not a url'', status = Error, mentionsBrand = False,
             mentionCount = 0, sentiment = None, pageClassification = None \<rparr>"

lemma example_domains:
  "getDomain exampleHostname ''https://www.example.com/a/b'' = ''example.com''"
  "getDomain exampleHostname ''https://www.example.com/c'' = ''example.com''"
  "getDomain exampleHostname ''https://news.example.org/x'' = ''news.example.org''"
  "getDomain exampleHostname ''not a url'' = ''not a url''"
  by (simp_all add: getDomain_def exampleHostname_def)

lemma example_mentions:
  "domainMentionsOf exampleHostname [pageA, pageB, pageE, pageC] =
     [(''example.com'', 6), (''news.example.org'', 1)]"
  by (simp add: domainMentionsOf_fold mentionStep_def pageA_def pageB_def pageC_def pageE_def
      example_domains)

lemma example_own_keys: "ownKeysOnly exampleHostname [pageA, pageB, pageE, pageC]"
  by (simp add: ownKeysOnly_def pageA_def pageB_def pageC_def pageE_def example_domains
      inheritedPropertyNames_def)

lemma example_perm: "mset [pageA, pageB, pageE, pageC] = mset [pageE, pageC, pageB, pageA]"
  by (simp add: add_mset_commute)

lemma example_ranked:
  "ranked exampleHostname [pageA, pageB, pageE, pageC] =
     [(''example.com'', 6), (''news.example.org'', 1)]"
  unfolding ranked_def example_mentions
  by (simp add: sortByCountDesc_def objectEntries_def isArrayIndex_def isDigit_def code_def)

lemma example_sentiments:
  "domainSentimentsOf exampleHostname [pageA, pageB, pageE, pageC] =
     [(''example.com'', \<lparr> tPositive = 1, tNeutral = 1, tNegative = 0, tUnknown = False \<rparr>),
      (''news.example.org'', \<lparr> tPositive = 0, tNeutral = 0, tNegative = 1, tUnknown = False \<rparr>)]"
  by (simp add: domainSentimentsOf_fold sentimentStep_def tallyPage_def getProp_def emptyTally_def
      Let_def pageA_def pageB_def pageC_def pageE_def example_domains)

lemma example_top:
  "topDomains (generateDetailedInsights exampleHostname [pageA, pageB, pageE, pageC]) =
     [\<lparr> tdDomain = ''example.com'', tdCount = 6,
         tdSentiment = Some \<lparr> tPositive = 1, tNeutral = 1, tNegative = 0, tUnknown = False \<rparr> \<rparr>,
      \<lparr> tdDomain = ''news.example.org'', tdCount = 1,
         tdSentiment = Some \<lparr> tPositive = 0, tNeutral = 0, tNegative = 1, tUnknown = False \<rparr> \<rparr>]"
  by (simp add: topDomains_eq example_ranked example_sentiments getProp_def)

lemma example_tallies:
  "positivePages (generateDetailedInsights exampleHostname [pageA, pageB, pageE, pageC]) = 1"
  "neutralPages (generateDetailedInsights exampleHostname [pageA, pageB, pageE, pageC]) = 1"
  "negativePages (generateDetailedInsights exampleHostname [pageA, pageB, pageE, pageC]) = 1"
  "successfulPages (generateDetailedInsights exampleHostname [pageA, pageB, pageE, pageC]) = 3"
  "highMentionPages (generateDetailedInsights exampleHostname [pageA, pageB, pageE, pageC]) = 1"
  "lowMentionPages (generateDetailedInsights exampleHostname [pageA, pageB, pageE, pageC]) = 2"
  by (simp_all add: generateDetailedInsights_def Let_def hasClass_def
      pageA_def pageB_def pageC_def pageE_def)

subsection \<open>Ties at the fifth place\<close>

text \<open>
  The five entries kept are those of the ranking whose count is at least the fifth
  count, when the sixth count is smaller or there is no sixth entry.
\<close>

lemma filter_eq_take:
  assumes "\<And>i. i < length xs \<Longrightarrow> i < n \<Longrightarrow> P (xs ! i)"
    and "\<And>i. i < length xs \<Longrightarrow> n \<le> i \<Longrightarrow> \<not> P (xs ! i)"
  shows "filter P xs = take n xs"
proof -
  have "P x" if "x \<in> set (take n xs)" for x
  proof -
    from that obtain i where i: "i < length (take n xs)" and x: "x = take n xs ! i"
      by (metis in_set_conv_nth)
    from i have "i < length xs" "i < n" by simp_all
    then have "P (xs ! i)" by (rule assms(1))
    then show ?thesis using x i by simp
  qed
  then have a: "filter P (take n xs) = take n xs" by (simp add: filter_id_conv)
  have "\<not> P x" if "x \<in> set (drop n xs)" for x
  proof -
    from that obtain i where i: "i < length (drop n xs)" and x: "x = drop n xs ! i"
      by (metis in_set_conv_nth)
    from i have "n + i < length xs" "n \<le> n + i" by simp_all
    then have "\<not> P (xs ! (n + i))" by (rule assms(2))
    then show ?thesis using x i by simp
  qed
  then have b: "filter P (drop n xs) = []" by (simp add: filter_empty_conv)
  have "filter P xs = filter P (take n xs @ drop n xs)" by simp
  also have "\<dots> = take n xs" unfolding filter_append a b by simp
  finally show ?thesis .
qed

lemma ranked_descending:
  assumes ij: "i \<le> j" and j: "j < length (ranked h rs)"
  shows "snd (ranked h rs ! j) \<le> snd (ranked h rs ! i)"
proof -
  let ?k = "\<lambda>e :: string \<times> nat. - int (snd e)"
  have s: "sorted (map ?k (ranked h rs))"
    unfolding ranked_def sortByCountDesc_def by (rule sorted_sort_key)
  have j': "j < length (map ?k (ranked h rs))" using j by simp
  have "map ?k (ranked h rs) ! i \<le> map ?k (ranked h rs) ! j"
    using s ij j' by (rule sorted_nth_mono)
  moreover have "map ?k (ranked h rs) ! i = ?k (ranked h rs ! i)"
    using ij j by (intro nth_map) simp
  moreover have "map ?k (ranked h rs) ! j = ?k (ranked h rs ! j)"
    using j by (intro nth_map)
  ultimately show ?thesis by simp
qed

lemma top_as_filter:
  assumes len: "length (ranked h rs') = length (ranked h rs)"
    and cnt: "map snd (ranked h rs') = map snd (ranked h rs)"
    and gap: "5 < length (ranked h rs)" "snd (ranked h rs ! 5) < snd (ranked h rs ! 4)"
  shows "filter (\<lambda>e. snd (ranked h rs ! 4) \<le> snd e) (ranked h rs') = take 5 (ranked h rs')"
proof (rule filter_eq_take)
  fix i
  assume i: "i < length (ranked h rs')" and "i < 5"
  have "map snd (ranked h rs') ! i = map snd (ranked h rs) ! i" by (simp only: cnt)
  then have s: "snd (ranked h rs' ! i) = snd (ranked h rs ! i)"
    using i len by simp
  have "i \<le> 4" using \<open>i < 5\<close> by simp
  moreover have "4 < length (ranked h rs)" using gap(1) by simp
  ultimately have "snd (ranked h rs ! 4) \<le> snd (ranked h rs ! i)"
    by (rule ranked_descending)
  then show "snd (ranked h rs ! 4) \<le> snd (ranked h rs' ! i)" by (simp only: s)
next
  fix i
  assume i: "i < length (ranked h rs')" and five: "5 \<le> i"
  have "map snd (ranked h rs') ! i = map snd (ranked h rs) ! i" by (simp only: cnt)
  then have s: "snd (ranked h rs' ! i) = snd (ranked h rs ! i)"
    using i len by simp
  have "i < length (ranked h rs)" using i len by simp
  with five have "snd (ranked h rs ! i) \<le> snd (ranked h rs ! 5)"
    by (rule ranked_descending)
  then have "snd (ranked h rs ! i) < snd (ranked h rs ! 4)"
    using gap(2) by simp
  then show "\<not> snd (ranked h rs ! 4) \<le> snd (ranked h rs' ! i)"
    unfolding s by simp
qed

lemma perm_top_ranked_mset:
  assumes p: "mset rs = mset rs'"
    and c: "length (ranked h rs) \<le> 5 \<or> snd (ranked h rs ! 5) < snd (ranked h rs ! 4)"
  shows "mset (take 5 (ranked h rs')) = mset (take 5 (ranked h rs))"
proof -
  have m: "mset (ranked h rs') = mset (ranked h rs)"
    by (simp add: mset_ranked perm_domainMentions_mset [OF p])
  have len: "length (ranked h rs') = length (ranked h rs)"
    by (rule perm_ranked_length [OF p])
  show ?thesis
  proof (cases "length (ranked h rs) \<le> 5")
    case True
    then show ?thesis using m len by simp
  next
    case False
    then have gap: "5 < length (ranked h rs)" "snd (ranked h rs ! 5) < snd (ranked h rs ! 4)"
      using c by simp_all
    let ?P = "\<lambda>e :: string \<times> nat. snd (ranked h rs ! 4) \<le> snd e"
    have a: "filter ?P (ranked h rs') = take 5 (ranked h rs')"
      using len perm_ranked_counts [OF p] gap by (rule top_as_filter)
    have b: "filter ?P (ranked h rs) = take 5 (ranked h rs)"
      using refl refl gap by (rule top_as_filter)
    have "mset (filter ?P (ranked h rs')) = mset (filter ?P (ranked h rs))"
      by (simp only: mset_filter m)
    then show ?thesis by (simp only: a b)
  qed
qed

lemma perm_topDomains_mset:
  assumes p: "mset rs = mset rs'"
    and c: "length (ranked h rs) \<le> 5 \<or> snd (ranked h rs ! 5) < snd (ranked h rs ! 4)"
  shows "mset (topDomains (generateDetailedInsights h rs')) =
         mset (topDomains (generateDetailedInsights h rs))"
proof -
  let ?mk = "\<lambda>e :: string \<times> nat. \<lparr> tdDomain = fst e, tdCount = snd e,
                 tdSentiment = getProp (domainSentimentsOf h rs) (fst e) \<rparr>"
  have "mset (map ?mk (take 5 (ranked h rs'))) = image_mset ?mk (mset (take 5 (ranked h rs')))"
    by (rule mset_map)
  also have "\<dots> = image_mset ?mk (mset (take 5 (ranked h rs)))"
    by (simp only: perm_top_ranked_mset [OF p c])
  also have "\<dots> = mset (map ?mk (take 5 (ranked h rs)))"
    by (rule mset_map [symmetric])
  finally show ?thesis
    unfolding topDomains_eq perm_domainSentiments [OF p] .
qed

text \<open>
  Six pages of six domains with two mentions each, and the hostnames the URL
  parser of the platform gives for their URLs.
\<close>

definition tieHostname :: "string \<Rightarrow> string option" where
  "tieHostname u =
     map_of [(''https://d1.com/'', ''d1.com''), (''https://d2.com/'', ''d2.com''),
             (''https://d3.com/'', ''d3.com''), (''https://d4.com/'', ''d4.com''),
             (''https://d5.com/'', ''d5.com''), (''https://d6.com/'', ''d6.com'')] u"

definition tiePage :: "string \<Rightarrow> unit page" where
  "tiePage u = \<lparr> url = u, status = Success, mentionsBrand = True, mentionCount = 2,
                 sentiment = Some (), pageClassification = Some Neutral \<rparr>"

definition tiePages :: "unit page list" where
  "tiePages = map tiePage [''https://d1.com/'', ''https://d2.com/'', ''https://d3.com/'',
                           ''https://d4.com/'', ''https://d5.com/'', ''https://d6.com/'']"

lemma tie_domains:
  "getDomain tieHostname ''https://d1.com/'' = ''d1.com''"
  "getDomain tieHostname ''https://d2.com/'' = ''d2.com''"
  "getDomain tieHostname ''https://d3.com/'' = ''d3.com''"
  "getDomain tieHostname ''https://d4.com/'' = ''d4.com''"
  "getDomain tieHostname ''https://d5.com/'' = ''d5.com''"
  "getDomain tieHostname ''https://d6.com/'' = ''d6.com''"
  by (simp_all add: getDomain_def tieHostname_def)

lemma tie_mentions:
  "domainMentionsOf tieHostname tiePages =
     [(''d1.com'', 2), (''d2.com'', 2), (''d3.com'', 2), (''d4.com'', 2), (''d5.com'', 2),
      (''d6.com'', 2)]"
  by (simp add: domainMentionsOf_fold mentionStep_def tiePages_def tiePage_def tie_domains)

lemma tie_mentions_rev:
  "domainMentionsOf tieHostname (rev tiePages) =
     [(''d6.com'', 2), (''d5.com'', 2), (''d4.com'', 2), (''d3.com'', 2), (''d2.com'', 2),
      (''d1.com'', 2)]"
  by (simp add: domainMentionsOf_fold mentionStep_def tiePages_def tiePage_def tie_domains)

lemma tie_ranked:
  "ranked tieHostname tiePages =
     [(''d1.com'', 2), (''d2.com'', 2), (''d3.com'', 2), (''d4.com'', 2), (''d5.com'', 2),
      (''d6.com'', 2)]"
  unfolding ranked_def tie_mentions by code_simp

lemma tie_ranked_rev:
  "ranked tieHostname (rev tiePages) =
     [(''d6.com'', 2), (''d5.com'', 2), (''d4.com'', 2), (''d3.com'', 2), (''d2.com'', 2),
      (''d1.com'', 2)]"
  unfolding ranked_def tie_mentions_rev by code_simp


subsection \<open>Order of the pages\<close>

lemma insights_tallies:
  "totalPages (generateDetailedInsights h rs) = length rs"
  "successfulPages (generateDetailedInsights h rs) =
     length (filter (\<lambda>r. status r = Success \<and> sentiment r \<noteq> None) rs)"
  "pagesWithMentions (generateDetailedInsights h rs) = length (filter mentionsBrand rs)"
  "highMentionPages (generateDetailedInsights h rs) =
     length (filter (\<lambda>r. mentionsBrand r \<and> mentionCount r \<ge> 3) rs)"
  "lowMentionPages (generateDetailedInsights h rs) =
     length (filter (\<lambda>r. mentionsBrand r \<and> mentionCount r < 3 \<and> mentionCount r > 0) rs)"
  "positivePages (generateDetailedInsights h rs) =
     length (filter (\<lambda>r. (status r = Success \<and> sentiment r \<noteq> None) \<and> hasClass Positive r) rs)"
  "neutralPages (generateDetailedInsights h rs) =
     length (filter (\<lambda>r. (status r = Success \<and> sentiment r \<noteq> None) \<and> hasClass Neutral r) rs)"
  "negativePages (generateDetailedInsights h rs) =
     length (filter (\<lambda>r. (status r = Success \<and> sentiment r \<noteq> None) \<and> hasClass Negative r) rs)"
  "highMentionSentiment (generateDetailedInsights h rs) =
     \<lparr> tPositive = length (filter (\<lambda>r. (mentionsBrand r \<and> mentionCount r \<ge> 3) \<and> hasClass Positive r) rs),
       tNeutral = length (filter (\<lambda>r. (mentionsBrand r \<and> mentionCount r \<ge> 3) \<and> hasClass Neutral r) rs),
       tNegative = length (filter (\<lambda>r. (mentionsBrand r \<and> mentionCount r \<ge> 3) \<and> hasClass Negative r) rs),
       tUnknown = False \<rparr>"
  by (simp_all add: generateDetailedInsights_def Let_def)

text \<open>
  Claim C7, as amended. Let \<open>results'\<close> be a permutation of \<open>results\<close>. Then both
  runs give every domain the same mention total and the same classification tally, the
  same corpus tallies, and top-domain lists with the same counts position by position;
  at every position whose count is the total of one domain only the two lists hold the
  same entry, so the lists are equal when no two domains have equal totals; and the two
  lists hold the same entries, each as often, whenever no tie crosses the fifth place:
  at most five domains are ranked, or the sixth count of the ranking is below the
  fifth. The statement is about the pages of \<open>ownKeysOnly\<close>, for which the dictionaries
  are modelled as the code has them.
\<close>

theorem aggregation_order_independent:
  fixes results results' :: "'s page list"
  assumes "mset results = mset results'" and "ownKeysOnly h results"
  shows "getProp (domainMentionsOf h results') = getProp (domainMentionsOf h results)
    \<and> getProp (domainSentimentsOf h results') = getProp (domainSentimentsOf h results)
    \<and> totalPages (generateDetailedInsights h results') =
        totalPages (generateDetailedInsights h results)
    \<and> successfulPages (generateDetailedInsights h results') =
        successfulPages (generateDetailedInsights h results)
    \<and> pagesWithMentions (generateDetailedInsights h results') =
        pagesWithMentions (generateDetailedInsights h results)
    \<and> positivePages (generateDetailedInsights h results') =
        positivePages (generateDetailedInsights h results)
    \<and> neutralPages (generateDetailedInsights h results') =
        neutralPages (generateDetailedInsights h results)
    \<and> negativePages (generateDetailedInsights h results') =
        negativePages (generateDetailedInsights h results)
    \<and> highMentionPages (generateDetailedInsights h results') =
        highMentionPages (generateDetailedInsights h results)
    \<and> lowMentionPages (generateDetailedInsights h results') =
        lowMentionPages (generateDetailedInsights h results)
    \<and> highMentionSentiment (generateDetailedInsights h results') =
        highMentionSentiment (generateDetailedInsights h results)
    \<and> map tdCount (topDomains (generateDetailedInsights h results')) =
        map tdCount (topDomains (generateDetailedInsights h results))
    \<and> (\<forall>i. i < length (topDomains (generateDetailedInsights h results))
            \<and> (\<forall>d. getProp (domainMentionsOf h results) d =
                      Some (tdCount (topDomains (generateDetailedInsights h results) ! i))
                    \<longrightarrow> d = tdDomain (topDomains (generateDetailedInsights h results) ! i))
          \<longrightarrow> topDomains (generateDetailedInsights h results') ! i =
              topDomains (generateDetailedInsights h results) ! i)
    \<and> ((\<forall>d d' c. getProp (domainMentionsOf h results) d = Some c
                  \<and> getProp (domainMentionsOf h results) d' = Some c \<longrightarrow> d = d')
        \<longrightarrow> topDomains (generateDetailedInsights h results') =
            topDomains (generateDetailedInsights h results))
    \<and> (length (sortByCountDesc (objectEntries (domainMentionsOf h results))) \<le> 5
         \<or> snd (sortByCountDesc (objectEntries (domainMentionsOf h results)) ! 5)
             < snd (sortByCountDesc (objectEntries (domainMentionsOf h results)) ! 4)
        \<longrightarrow> mset (topDomains (generateDetailedInsights h results')) =
            mset (topDomains (generateDetailedInsights h results)))"
proof -
  note p = assms(1)
  let ?G = "generateDetailedInsights h results"
  let ?G' = "generateDetailedInsights h results'"
  have len: "length results' = length results"
    using p by (metis mset_eq_length)
  have tallies:
    "totalPages ?G' = totalPages ?G" "successfulPages ?G' = successfulPages ?G"
    "pagesWithMentions ?G' = pagesWithMentions ?G" "positivePages ?G' = positivePages ?G"
    "neutralPages ?G' = neutralPages ?G" "negativePages ?G' = negativePages ?G"
    "highMentionPages ?G' = highMentionPages ?G" "lowMentionPages ?G' = lowMentionPages ?G"
    "highMentionSentiment ?G' = highMentionSentiment ?G"
    unfolding insights_tallies by (simp_all add: len perm_filter_length [OF p])
  have counts: "map tdCount (topDomains ?G') = map tdCount (topDomains ?G)"
    by (rule perm_topDomains_counts [OF p])
  have nth: "topDomains ?G' ! i = topDomains ?G ! i"
    if "i < length (topDomains ?G)"
      and "\<And>d. getProp (domainMentionsOf h results) d = Some (tdCount (topDomains ?G ! i))
             \<Longrightarrow> d = tdDomain (topDomains ?G ! i)"
    for i
    using p that by (rule perm_topDomains_nth)
  have all: "topDomains ?G' = topDomains ?G"
    if u: "\<forall>d d' c. getProp (domainMentionsOf h results) d = Some c
                  \<and> getProp (domainMentionsOf h results) d' = Some c \<longrightarrow> d = d'"
  proof (rule nth_equalityI)
    show "length (topDomains ?G') = length (topDomains ?G)"
      using counts by (metis length_map)
  next
    fix i
    assume "i < length (topDomains ?G')"
    then have i: "i < length (topDomains ?G)"
      using counts by (metis length_map)
    then have ir: "ranked h results ! i \<in> set (ranked h results)"
      by (simp add: length_topDomains)
    have own: "getProp (domainMentionsOf h results) (tdDomain (topDomains ?G ! i)) =
        Some (tdCount (topDomains ?G ! i))"
      using ranked_entry [OF ir] by (simp add: nth_topDomains [OF i])
    show "topDomains ?G' ! i = topDomains ?G ! i"
      using i
    proof (rule nth)
      fix d
      assume "getProp (domainMentionsOf h results) d = Some (tdCount (topDomains ?G ! i))"
      with own u show "d = tdDomain (topDomains ?G ! i)" by blast
    qed
  qed
  have content: "mset (topDomains ?G') = mset (topDomains ?G)"
    if "length (sortByCountDesc (objectEntries (domainMentionsOf h results))) \<le> 5
        \<or> snd (sortByCountDesc (objectEntries (domainMentionsOf h results)) ! 5)
            < snd (sortByCountDesc (objectEntries (domainMentionsOf h results)) ! 4)"
    using p that unfolding ranked_def [symmetric] by (rule perm_topDomains_mset)
  show ?thesis
    using perm_domainMentions [OF p, of h] perm_domainSentiments [OF p, of h]
      tallies counts nth all content
    by blast
qed

theorem aggregation_order_independent_witness:
  "mset [pageA, pageB, pageE, pageC] = mset [pageE, pageC, pageB, pageA]
   \<and> ownKeysOnly exampleHostname [pageA, pageB, pageE, pageC]
   \<and> getProp (domainMentionsOf exampleHostname [pageE, pageC, pageB, pageA]) ''example.com'' = Some 6
   \<and> positivePages (generateDetailedInsights exampleHostname [pageE, pageC, pageB, pageA]) = 1
   \<and> lowMentionPages (generateDetailedInsights exampleHostname [pageE, pageC, pageB, pageA]) = 2
   \<and> topDomains (generateDetailedInsights exampleHostname [pageE, pageC, pageB, pageA]) =
       [\<lparr> tdDomain = ''example.com'', tdCount = 6,
           tdSentiment = Some \<lparr> tPositive = 1, tNeutral = 1, tNegative = 0, tUnknown = False \<rparr> \<rparr>,
        \<lparr> tdDomain = ''news.example.org'', tdCount = 1,
           tdSentiment = Some \<lparr> tPositive = 0, tNeutral = 0, tNegative = 1, tUnknown = False \<rparr> \<rparr>]
   \<and> length (sortByCountDesc (objectEntries
         (domainMentionsOf exampleHostname [pageA, pageB, pageE, pageC]))) \<le> 5
   \<and> mset (topDomains (generateDetailedInsights exampleHostname [pageE, pageC, pageB, pageA])) =
       mset (topDomains (generateDetailedInsights exampleHostname [pageA, pageB, pageE, pageC]))"
proof -
  note t = aggregation_order_independent [OF example_perm example_own_keys]
  have noTies: "\<forall>d d' c.
      getProp (domainMentionsOf exampleHostname [pageA, pageB, pageE, pageC]) d = Some c
      \<and> getProp (domainMentionsOf exampleHostname [pageA, pageB, pageE, pageC]) d' = Some c
      \<longrightarrow> d = d'"
    unfolding example_mentions by (auto simp: getProp_def split: if_splits)
  have six: "getProp (domainMentionsOf exampleHostname [pageE, pageC, pageB, pageA])
      ''example.com'' = Some 6"
    using t unfolding example_mentions by (simp add: getProp_def)
  have pos: "positivePages (generateDetailedInsights exampleHostname [pageE, pageC, pageB, pageA]) = 1"
    using t by (simp add: example_tallies)
  have low: "lowMentionPages (generateDetailedInsights exampleHostname [pageE, pageC, pageB, pageA]) = 2"
    using t by (simp add: example_tallies)
  have "topDomains (generateDetailedInsights exampleHostname [pageE, pageC, pageB, pageA]) =
      topDomains (generateDetailedInsights exampleHostname [pageA, pageB, pageE, pageC])"
    using t noTies by blast
  then have top: "topDomains (generateDetailedInsights exampleHostname [pageE, pageC, pageB, pageA]) =
       [\<lparr> tdDomain = ''example.com'', tdCount = 6,
           tdSentiment = Some \<lparr> tPositive = 1, tNeutral = 1, tNegative = 0, tUnknown = False \<rparr> \<rparr>,
        \<lparr> tdDomain = ''news.example.org'', tdCount = 1,
           tdSentiment = Some \<lparr> tPositive = 0, tNeutral = 0, tNegative = 1, tUnknown = False \<rparr> \<rparr>]"
    by (simp only: example_top)
  have len: "length (sortByCountDesc (objectEntries
      (domainMentionsOf exampleHostname [pageA, pageB, pageE, pageC]))) \<le> 5"
    using example_ranked unfolding ranked_def by simp
  have content: "mset (topDomains (generateDetailedInsights exampleHostname [pageE, pageC, pageB, pageA])) =
      mset (topDomains (generateDetailedInsights exampleHostname [pageA, pageB, pageE, pageC]))"
    using t len by blast
  from example_perm example_own_keys six pos low top len content show ?thesis
    by (intro conjI)
qed

text \<open>
  Claim C7, as it is worded, fails where a tie crosses the fifth place: six domains
  with two mentions each give the first five in the order of the pages, so the reversed
  list of pages gives another set of five domains.
\<close>

theorem top_domains_depend_on_order:
  "mset (rev tiePages) = mset tiePages
   \<and> ownKeysOnly tieHostname tiePages
   \<and> map tdDomain (topDomains (generateDetailedInsights tieHostname tiePages)) =
       [''d1.com'', ''d2.com'', ''d3.com'', ''d4.com'', ''d5.com'']
   \<and> map tdDomain (topDomains (generateDetailedInsights tieHostname (rev tiePages))) =
       [''d6.com'', ''d5.com'', ''d4.com'', ''d3.com'', ''d2.com'']
   \<and> set (map tdDomain (topDomains (generateDetailedInsights tieHostname (rev tiePages)))) \<noteq>
       set (map tdDomain (topDomains (generateDetailedInsights tieHostname tiePages)))"
proof -
  have p: "mset (rev tiePages) = mset tiePages" by (rule mset_rev)
  have own: "ownKeysOnly tieHostname tiePages"
    by (simp add: ownKeysOnly_def tiePages_def tiePage_def tie_domains inheritedPropertyNames_def)
  have a: "map tdDomain (topDomains (generateDetailedInsights tieHostname tiePages)) =
      [''d1.com'', ''d2.com'', ''d3.com'', ''d4.com'', ''d5.com'']"
    by (simp add: topDomains_eq tie_ranked)
  have b: "map tdDomain (topDomains (generateDetailedInsights tieHostname (rev tiePages))) =
      [''d6.com'', ''d5.com'', ''d4.com'', ''d3.com'', ''d2.com'']"
    by (simp add: topDomains_eq tie_ranked_rev)
  have in1: "''d1.com'' \<in> set [''d1.com'', ''d2.com'', ''d3.com'', ''d4.com'', ''d5.com'']"
    by simp
  have out1: "''d1.com'' \<notin> set [''d6.com'', ''d5.com'', ''d4.com'', ''d3.com'', ''d2.com'']"
    by simp
  have c: "set (map tdDomain (topDomains (generateDetailedInsights tieHostname (rev tiePages)))) \<noteq>
      set (map tdDomain (topDomains (generateDetailedInsights tieHostname tiePages)))"
    unfolding a b using in1 out1 by metis
  from p own a b c show ?thesis by (intro conjI)
qed

subsection \<open>Pages that could not be fetched\<close>

definition errorsCarryNoPayload :: "'s page list \<Rightarrow> bool" where
  "errorsCarryNoPayload results =
     list_all (\<lambda>r. status r \<noteq> Error \<or> (sentiment r = None \<and> pageClassification r = None))
       results"

lemma foldl_sentimentStep_filter:
  "(\<And>r. r \<in> set rs \<Longrightarrow> \<not> keep r \<Longrightarrow> \<not> counted r) \<Longrightarrow>
   foldl (sentimentStep h) s (filter keep rs) = foldl (sentimentStep h) s rs"
  by (induction rs arbitrary: s) (simp_all add: sentimentStep_skip)

text \<open>
  Claim C8. When every page with status \<^verbatim>\<open>error\<close> carries no sentiment and no
  classification, aggregation counts these pages in the total and nowhere else among
  the tallies of the claim: the number of successful pages, the positive, neutral and
  negative tallies and the classification tallies of the domains are those of the
  pages that are left when the error pages are removed. As for C7, the statement is
  about the pages of \<open>ownKeysOnly\<close>.
\<close>

theorem error_pages_are_inert:
  fixes results :: "'s page list"
  assumes "errorsCarryNoPayload results" and "ownKeysOnly h results"
  shows "totalPages (generateDetailedInsights h results) = length results
    \<and> totalPages (generateDetailedInsights h results) =
        totalPages (generateDetailedInsights h (filter (\<lambda>r. status r \<noteq> Error) results))
        + length (filter (\<lambda>r. status r = Error) results)
    \<and> successfulPages (generateDetailedInsights h results) =
        successfulPages (generateDetailedInsights h (filter (\<lambda>r. status r \<noteq> Error) results))
    \<and> positivePages (generateDetailedInsights h results) =
        positivePages (generateDetailedInsights h (filter (\<lambda>r. status r \<noteq> Error) results))
    \<and> neutralPages (generateDetailedInsights h results) =
        neutralPages (generateDetailedInsights h (filter (\<lambda>r. status r \<noteq> Error) results))
    \<and> negativePages (generateDetailedInsights h results) =
        negativePages (generateDetailedInsights h (filter (\<lambda>r. status r \<noteq> Error) results))
    \<and> domainSentimentsOf h results =
        domainSentimentsOf h (filter (\<lambda>r. status r \<noteq> Error) results)"
proof -
  let ?ok = "\<lambda>r :: 's page. status r \<noteq> Error"
  have total: "length results = length (filter ?ok results)
      + length (filter (\<lambda>r. status r = Error) results)"
    using sum_length_filter_compl [of "\<lambda>r. status r = Error" results] by simp
  have succ: "filter (\<lambda>r. status r = Success \<and> P r) (filter ?ok results) =
      filter (\<lambda>r. status r = Success \<and> P r) results" for P
    by (induction results) auto
  have succ': "filter (\<lambda>r. (status r = Success \<and> P r) \<and> Q r) (filter ?ok results) =
      filter (\<lambda>r. (status r = Success \<and> P r) \<and> Q r) results" for P Q
    by (induction results) auto
  have "\<not> counted r" if "r \<in> set results" "\<not> ?ok r" for r
    using assms(1) that by (auto simp: errorsCarryNoPayload_def list_all_iff counted_def)
  then have sent: "domainSentimentsOf h results = domainSentimentsOf h (filter ?ok results)"
    unfolding domainSentimentsOf_fold
    using foldl_sentimentStep_filter [of results ?ok h "[]"] by simp
  show ?thesis
    unfolding insights_tallies succ succ'
    using total sent by simp
qed

theorem error_pages_are_inert_witness:
  "errorsCarryNoPayload [pageA, pageB, pageE, pageC]
   \<and> ownKeysOnly exampleHostname [pageA, pageB, pageE, pageC]
   \<and> filter (\<lambda>r. status r \<noteq> Error) [pageA, pageB, pageE, pageC] = [pageA, pageB, pageC]
   \<and> totalPages (generateDetailedInsights exampleHostname [pageA, pageB, pageE, pageC]) = 4
   \<and> successfulPages (generateDetailedInsights exampleHostname [pageA, pageB, pageC]) = 3
   \<and> positivePages (generateDetailedInsights exampleHostname [pageA, pageB, pageC]) = 1
   \<and> domainSentimentsOf exampleHostname [pageA, pageB, pageC] =
       [(''example.com'', \<lparr> tPositive = 1, tNeutral = 1, tNegative = 0, tUnknown = False \<rparr>),
        (''news.example.org'', \<lparr> tPositive = 0, tNeutral = 0, tNegative = 1, tUnknown = False \<rparr>)]"
proof -
  have e: "errorsCarryNoPayload [pageA, pageB, pageE, pageC]"
    by (simp add: errorsCarryNoPayload_def pageA_def pageB_def pageC_def pageE_def)
  have f: "filter (\<lambda>r. status r \<noteq> Error) [pageA, pageB, pageE, pageC] = [pageA, pageB, pageC]"
    by (simp add: pageA_def pageB_def pageC_def pageE_def)
  note t = error_pages_are_inert [OF e example_own_keys, unfolded f]
  have t4: "totalPages (generateDetailedInsights exampleHostname [pageA, pageB, pageE, pageC]) = 4"
    using t by simp
  have s3: "successfulPages (generateDetailedInsights exampleHostname [pageA, pageB, pageC]) = 3"
    using t by (simp add: example_tallies)
  have p3: "positivePages (generateDetailedInsights exampleHostname [pageA, pageB, pageC]) = 1"
    using t by (simp add: example_tallies)
  have d3: "domainSentimentsOf exampleHostname [pageA, pageB, pageC] =
       [(''example.com'', \<lparr> tPositive = 1, tNeutral = 1, tNegative = 0, tUnknown = False \<rparr>),
        (''news.example.org'', \<lparr> tPositive = 0, tNeutral = 0, tNegative = 1, tUnknown = False \<rparr>)]"
    using t by (simp add: example_sentiments)
  show ?thesis
    using e f example_own_keys t4 s3 p3 d3 by blast
qed

subsection \<open>Domains\<close>

lemma getDomain_unparsable: "h u = None \<Longrightarrow> getDomain h u = u"
  by (simp add: getDomain_def)

text \<open>
  Claim C9 (the code differs). \<^verbatim>\<open>getDomain\<close> gives \<^verbatim>\<open>example.com\<close> for
  \<^verbatim>\<open>https://www.example.com/a/b\<close> and gives \<^verbatim>\<open>not a url\<close> back; but it removes
  the first \<^verbatim>\<open>www.\<close> wherever it stands, so the host \<^verbatim>\<open>awww.example.com\<close>,
  which has no such prefix, becomes \<^verbatim>\<open>aexample.com\<close>.
\<close>

theorem getDomain_removes_inner_www:
  "getDomain exampleHostname ''https://www.example.com/a/b'' = ''example.com''
   \<and> getDomain exampleHostname ''not a url'' = ''not a url''
   \<and> exampleHostname ''https://awww.example.com/'' = Some ''awww.example.com''
   \<and> getDomain exampleHostname ''https://awww.example.com/'' = ''aexample.com''"
  by (simp add: getDomain_def exampleHostname_def)

end
